(* ===== verification/Prelude.thy ===== *)
theory Prelude
  imports Main "HOL-Library.Word" "HOL-Library.Multiset"
begin

text \<open>
  Shared vocabulary of the development: the machine integers of the Rust source, the
  \<open>Result\<close> type and its sequencing, the byte readers that \<open>read_exact\<close> works on,
  little- and big-endian integer encodings, \<open>Duration\<close> values, and the cyclic search
  loop that the address book uses twice.  The interface \<open>byte_codec\<close> states what a
  fixed-width encoding promises; the integer encodings of the source interpret it.
\<close>

section \<open>Machine integers, results, readers\<close>

type_synonym u8 = "8 word"
type_synonym u16 = "16 word"
type_synonym u32 = "32 word"
type_synonym u64 = "64 word"

named_theorems codec_simps \<open>length and round-trip facts of the byte encodings\<close>
named_theorems res_simps \<open>unfolding of result sequencing\<close>

text \<open>\<open>Result<T, E>\<close> is \<open>'e + 'a\<close>; \<open>rbind\<close> is the \<open>?\<close> operator.\<close>

fun rbind :: "'e + 'a \<Rightarrow> ('a \<Rightarrow> 'e + 'b) \<Rightarrow> 'e + 'b" where
  "rbind (Inl e) f = Inl e"
| "rbind (Inr x) f = f x"

fun map_err :: "('e \<Rightarrow> 'f) \<Rightarrow> 'e + 'a \<Rightarrow> 'f + 'a" where
  "map_err f (Inl e) = Inl (f e)"
| "map_err f (Inr x) = Inr x"

definition ok_or :: "'e \<Rightarrow> 'a option \<Rightarrow> 'e + 'a" where
  "ok_or e x = (case x of None \<Rightarrow> Inl e | Some y \<Rightarrow> Inr y)"

definition check :: "bool \<Rightarrow> 'e \<Rightarrow> 'e + unit" where
  "check b e = (if b then Inr () else Inl e)"

lemma rbind_Inr_iff: "rbind m f = Inr y \<longleftrightarrow> (\<exists>x. m = Inr x \<and> f x = Inr y)"
  by (cases m) auto

lemma rbind_Inl_iff: "rbind m f = Inl e \<longleftrightarrow> m = Inl e \<or> (\<exists>x. m = Inr x \<and> f x = Inl e)"
  by (cases m) auto

lemma map_err_Inr_iff [simp]: "map_err f m = Inr x \<longleftrightarrow> m = Inr x"
  by (cases m) auto

lemma check_simps [simp]: "check True e = Inr ()" "check False e = Inl e"
  by (simp_all add: check_def)

lemma ok_or_simps [simp]: "ok_or e None = Inl e" "ok_or e (Some x) = Inr x"
  by (simp_all add: ok_or_def)

text \<open>The kinds of \<open>std::io::Error\<close> that the source produces or inspects.\<close>

datatype io_error =
    UnexpectedEof
  | InvalidData string
  | AlreadyExists
  | WouldBlock
  | TimedOut
  | OtherError string

text \<open>
  \<open>Read::read_exact\<close> on a reader whose remaining content is a byte list: it takes
  exactly \<open>n\<close> bytes or fails with \<open>UnexpectedEof\<close>.
\<close>

definition read_exact :: "nat \<Rightarrow> u8 list \<Rightarrow> io_error + (u8 list \<times> u8 list)" where
  "read_exact n bs = (if n \<le> length bs then Inr (take n bs, drop n bs) else Inl UnexpectedEof)"

lemma read_exact_append [codec_simps]:
  "length xs = n \<Longrightarrow> read_exact n (xs @ ys) = Inr (xs, ys)"
  by (simp add: read_exact_def)

lemma read_exact_exact [codec_simps]:
  "length xs = n \<Longrightarrow> read_exact n xs = Inr (xs, [])"
  by (simp add: read_exact_def)

lemma read_exact_short: "length bs < n \<Longrightarrow> read_exact n bs = Inl UnexpectedEof"
  by (simp add: read_exact_def)

lemma read_exact_Inr_iff:
  "read_exact n bs = Inr (xs, ys) \<longleftrightarrow> length xs = n \<and> bs = xs @ ys"
  by (auto simp: read_exact_def append_eq_conv_conj)

section \<open>Integer encodings\<close>

fun le_bytes :: "nat \<Rightarrow> nat \<Rightarrow> u8 list" where
  "le_bytes 0 n = []"
| "le_bytes (Suc k) n = word_of_nat (n mod 256) # le_bytes k (n div 256)"

fun le_val :: "u8 list \<Rightarrow> nat" where
  "le_val [] = 0"
| "le_val (b # bs) = unat b + 256 * le_val bs"

lemma le_bytes_numeral [simp]:
  "le_bytes (numeral k) n = word_of_nat (n mod 256) # le_bytes (pred_numeral k) (n div 256)"
  by (simp only: numeral_eq_Suc [of k] le_bytes.simps)

lemma length_le_bytes [simp, codec_simps]: "length (le_bytes k n) = k"
  by (induction k arbitrary: n) auto

lemma le_val_bound: "le_val bs < 256 ^ length bs"
proof (induction bs)
  case Nil
  then show ?case by simp
next
  case (Cons b bs)
  have "unat b < 256"
    using unsigned_less [of b, where 'a = nat] by simp
  then show ?case using Cons by simp
qed

lemma le_val_le_bytes: "le_val (le_bytes k n) = n mod 256 ^ k"
proof (induction k arbitrary: n)
  case 0
  then show ?case by simp
next
  case (Suc k)
  have "unat (word_of_nat (n mod 256) :: u8) = n mod 256"
    by (simp add: unat_of_nat take_bit_eq_mod)
  then have "le_val (le_bytes (Suc k) n) = n mod 256 + 256 * ((n div 256) mod 256 ^ k)"
    by (simp add: Suc)
  also have "\<dots> = n mod (256 * 256 ^ k)"
    by (simp add: mod_mult2_eq)
  finally show ?case by simp
qed

lemma le_bytes_le_val: "le_bytes (length bs) (le_val bs) = bs"
proof (induction bs)
  case Nil
  then show ?case by simp
next
  case (Cons b bs)
  have b: "unat b < 256"
    using unsigned_less [of b, where 'a = nat] by simp
  have "(unat b + 256 * le_val bs) mod 256 = unat b"
    and "(unat b + 256 * le_val bs) div 256 = le_val bs"
    using b by simp_all
  then show ?case using Cons by simp
qed

text \<open>\<open>to_le_bytes\<close>, \<open>from_le_bytes\<close> and \<open>to_be_bytes\<close> of the unsigned integers.\<close>

definition to_le_bytes :: "'a::len word \<Rightarrow> u8 list" where
  "to_le_bytes w = le_bytes (LENGTH('a) div 8) (unat w)"

definition from_le_bytes :: "u8 list \<Rightarrow> 'a::len word" where
  "from_le_bytes bs = word_of_nat (le_val bs)"

definition to_be_bytes :: "'a::len word \<Rightarrow> u8 list" where
  "to_be_bytes w = rev (to_le_bytes w)"

definition from_be_bytes :: "u8 list \<Rightarrow> 'a::len word" where
  "from_be_bytes bs = from_le_bytes (rev bs)"

lemma length_to_le_bytes: "length (to_le_bytes (w :: 'a::len word)) = LENGTH('a) div 8"
  by (simp add: to_le_bytes_def)

lemma from_to_le_bytes:
  assumes "8 dvd LENGTH('a)"
  shows "from_le_bytes (to_le_bytes (w :: 'a::len word)) = w"
proof -
  have "(256 :: nat) ^ (LENGTH('a) div 8) = 2 ^ LENGTH('a)"
  proof -
    have "(256 :: nat) = 2 ^ 8" by simp
    then have "(256 :: nat) ^ (LENGTH('a) div 8) = 2 ^ (8 * (LENGTH('a) div 8))"
      by (simp only: power_mult)
    with assms show ?thesis by simp
  qed
  moreover have "unat w < 2 ^ LENGTH('a)" by simp
  ultimately show ?thesis
    by (simp add: from_le_bytes_def to_le_bytes_def le_val_le_bytes)
qed

section \<open>The interface of a fixed-width encoding\<close>

locale byte_codec =
  fixes enc :: "'a \<Rightarrow> u8 list"
    and dec :: "u8 list \<Rightarrow> 'a"
    and width :: nat
  assumes enc_length: "length (enc x) = width"
    and dec_enc: "dec (enc x) = x"
begin

lemma read_enc: "read_exact width (enc x @ rest) = Inr (enc x, rest)"
  by (simp add: read_exact_append enc_length)

lemma enc_inject: "enc x = enc y \<longleftrightarrow> x = y"
  using dec_enc by metis

lemma enc_append_inject: "enc x @ xs = enc y @ ys \<longleftrightarrow> x = y \<and> xs = ys"
  by (simp add: enc_length enc_inject)

lemma take_enc: "take width (enc x @ rest) = enc x"
  by (simp add: enc_length)

lemma drop_enc: "drop width (enc x @ rest) = rest"
  by (simp add: enc_length)

end

interpretation u8_le: byte_codec "to_le_bytes :: u8 \<Rightarrow> u8 list" from_le_bytes 1
  by unfold_locales (simp_all add: length_to_le_bytes from_to_le_bytes)

interpretation u16_le: byte_codec "to_le_bytes :: u16 \<Rightarrow> u8 list" from_le_bytes 2
  by unfold_locales (simp_all add: length_to_le_bytes from_to_le_bytes)

interpretation u32_le: byte_codec "to_le_bytes :: u32 \<Rightarrow> u8 list" from_le_bytes 4
  by unfold_locales (simp_all add: length_to_le_bytes from_to_le_bytes)

interpretation u64_le: byte_codec "to_le_bytes :: u64 \<Rightarrow> u8 list" from_le_bytes 8
  by unfold_locales (simp_all add: length_to_le_bytes from_to_le_bytes)

interpretation u16_be: byte_codec "to_be_bytes :: u16 \<Rightarrow> u8 list" from_be_bytes 2
  by unfold_locales (simp_all add: to_be_bytes_def from_be_bytes_def length_to_le_bytes from_to_le_bytes)

lemmas le_codec_facts [simp, codec_simps] =
  u8_le.enc_length u8_le.dec_enc u16_le.enc_length u16_le.dec_enc
  u32_le.enc_length u32_le.dec_enc u64_le.enc_length u64_le.dec_enc
  u16_be.enc_length u16_be.dec_enc

lemma to_le_bytes_u8 [simp]: "to_le_bytes (w :: u8) = [w]"
proof -
  have "unat w < 256" using unsigned_less [of w, where 'a = nat] by simp
  then show ?thesis by (simp add: to_le_bytes_def)
qed

lemma from_le_bytes_u8 [simp]: "from_le_bytes [w] = (w :: u8)"
  by (simp add: from_le_bytes_def)

section \<open>Durations\<close>

text \<open>
  A \<open>Duration\<close> is its length in nanoseconds.  \<open>saturating_sub\<close> is the
  subtraction of \<^typ>\<open>nat\<close>.
\<close>

type_synonym duration = nat

definition nanos_per_sec :: nat where
  "nanos_per_sec = 1000000000"

definition from_secs :: "nat \<Rightarrow> duration" where
  "from_secs s = s * nanos_per_sec"

definition as_secs :: "duration \<Rightarrow> nat" where
  "as_secs d = d div nanos_per_sec"

lemma as_secs_from_secs [simp]: "as_secs (from_secs s) = s"
  by (simp add: as_secs_def from_secs_def nanos_per_sec_def)

section \<open>Cyclic search\<close>

text \<open>
  The loop \<open>while tmp != start { if let Some(x) = f(tmp) { return Some(x) };
  tmp = (tmp + 1) % n }\<close>.  The outer \<open>None\<close> is a loop that never returns (of
  this loop or of the body \<open>f\<close>), the value \<open>Some None\<close> a loop that runs to its end.
\<close>

partial_function (option) cyc_find ::
    "nat \<Rightarrow> nat \<Rightarrow> (nat \<Rightarrow> 'a option option) \<Rightarrow> nat \<Rightarrow> 'a option option" where
  "cyc_find n start f tmp =
     (if tmp = start then Some None
      else case f tmp of
             None \<Rightarrow> None
           | Some (Some x) \<Rightarrow> Some (Some x)
           | Some None \<Rightarrow> cyc_find n start f ((tmp + 1) mod n))"

definition cyc_dist :: "nat \<Rightarrow> nat \<Rightarrow> nat \<Rightarrow> nat" where
  "cyc_dist n start tmp = (if tmp \<le> start then start - tmp else n - (tmp - start))"

lemma cyc_dist_step:
  assumes "start < n" "tmp < n" "tmp \<noteq> start"
  shows "Suc (cyc_dist n start ((tmp + 1) mod n)) = cyc_dist n start tmp"
proof (cases "tmp + 1 = n")
  case True
  then show ?thesis using assms by (auto simp: cyc_dist_def)
next
  case False
  then have "(tmp + 1) mod n = tmp + 1" using assms by simp
  then show ?thesis using assms by (auto simp: cyc_dist_def)
qed

lemma cyc_find_cases:
  assumes "start < n" "tmp < n" "\<And>i. i < n \<Longrightarrow> f i = Some (g i)"
  shows "(\<exists>x i. cyc_find n start f tmp = Some (Some x) \<and> i < n \<and> i \<noteq> start \<and> g i = Some x)
       \<or> (cyc_find n start f tmp = Some None
          \<and> (\<forall>i<n. cyc_dist n start i \<le> cyc_dist n start tmp \<longrightarrow> i \<noteq> start \<longrightarrow> g i = None))"
  using assms(1,2)
proof (induction "cyc_dist n start tmp" arbitrary: tmp)
  case 0
  then have "tmp = start" by (auto simp: cyc_dist_def split: if_splits)
  moreover have "i = start" if "i < n" "cyc_dist n start i \<le> 0" for i
    using that 0 by (auto simp: cyc_dist_def split: if_splits)
  ultimately show ?case
    using 0 by (auto simp: cyc_find.simps [of n start f start] cyc_dist_def)
next
  case (Suc d)
  then have ne: "tmp \<noteq> start" by (auto simp: cyc_dist_def)
  let ?t = "(tmp + 1) mod n"
  have t: "?t < n" using Suc.prems by simp
  have d: "d = cyc_dist n start ?t"
    using cyc_dist_step [OF Suc.prems ne] Suc.hyps(2) by simp
  have f: "f tmp = Some (g tmp)" using assms(3) Suc.prems by simp
  show ?case
  proof (cases "g tmp")
    case (Some x)
    then show ?thesis
      using ne Suc.prems f by (auto simp: cyc_find.simps [of n start f tmp])
  next
    case None
    have same: "i = tmp" if "i < n" "cyc_dist n start i = cyc_dist n start tmp" for i
      using that Suc.prems by (auto simp: cyc_dist_def split: if_splits)
    have eq: "cyc_find n start f tmp = cyc_find n start f ?t"
      using ne None f by (simp add: cyc_find.simps [of n start f tmp])
    have rest: "g i = None"
      if all: "\<forall>i<n. cyc_dist n start i \<le> cyc_dist n start ?t \<longrightarrow> i \<noteq> start \<longrightarrow> g i = None"
        and i: "i < n" "cyc_dist n start i \<le> cyc_dist n start tmp" "i \<noteq> start" for i
    proof (cases "cyc_dist n start i = cyc_dist n start tmp")
      case True
      then show ?thesis using same [OF i(1)] None by simp
    next
      case False
      then have "cyc_dist n start i \<le> cyc_dist n start ?t" using i(2) d Suc.hyps(2) by simp
      then show ?thesis using all i by blast
    qed
    show ?thesis
      using Suc.hyps(1) [OF d Suc.prems(1) t] rest unfolding eq by blast
  qed
qed

lemma cyc_dist_full:
  assumes "start < n" "i < n"
  shows "cyc_dist n start i \<le> cyc_dist n start ((start + 1) mod n) \<or> i = start"
proof (cases "start + 1 = n")
  case True
  then show ?thesis using assms by (auto simp: cyc_dist_def)
next
  case False
  then have "(start + 1) mod n = start + 1" using assms by simp
  then show ?thesis using assms by (auto simp: cyc_dist_def)
qed

text \<open>Started one past \<open>start\<close>, the loop returns and looks at every other index.\<close>

lemma cyc_find_total:
  assumes "start < n" "\<And>i. i < n \<Longrightarrow> f i = Some (g i)"
  obtains x i where "cyc_find n start f ((start + 1) mod n) = Some (Some x)"
      "i < n" "i \<noteq> start" "g i = Some x"
    | "cyc_find n start f ((start + 1) mod n) = Some None"
      "\<forall>i<n. i \<noteq> start \<longrightarrow> g i = None"
proof -
  have t: "(start + 1) mod n < n" using assms by simp
  consider (found) x i where "cyc_find n start f ((start + 1) mod n) = Some (Some x)"
      "i < n" "i \<noteq> start" "g i = Some x"
    | (none) "cyc_find n start f ((start + 1) mod n) = Some None"
      "\<forall>i<n. cyc_dist n start i \<le> cyc_dist n start ((start + 1) mod n) \<longrightarrow> i \<noteq> start \<longrightarrow> g i = None"
    using cyc_find_cases [where f = f and g = g, OF assms(1) t assms(2)] by blast
  then show ?thesis
  proof cases
    case found
    then show ?thesis by (rule that(1))
  next
    case none
    then have "\<forall>i<n. i \<noteq> start \<longrightarrow> g i = None"
      using cyc_dist_full [OF assms(1)] by blast
    with none(1) show ?thesis by (rule that(2))
  qed
qed

section \<open>Lists and maps\<close>

definition enumerates :: "'a list \<Rightarrow> 'a set \<Rightarrow> bool" where
  "enumerates xs A \<longleftrightarrow> distinct xs \<and> set xs = A"

text \<open>
  The iteration order of a \<open>HashMap\<close> or \<open>HashSet\<close> is not specified: operations
  that iterate over one take the order as an argument, a list that
  \<^const>\<open>enumerates\<close> the keys.
\<close>

lemma enumerates_finite: "enumerates xs A \<Longrightarrow> finite A"
  by (auto simp: enumerates_def)

lemma enumerates_sum: "enumerates xs A \<Longrightarrow> sum_list (map f xs) = sum f A"
  by (auto simp: enumerates_def sum_list_distinct_conv_sum_set)

lemma list_update_nth_other: "i \<noteq> j \<Longrightarrow> xs[i := x] ! j = xs ! j"
  by simp

section \<open>Decimal numbers\<close>

fun decimal :: "nat \<Rightarrow> string" where
  "decimal n = (if n < 10 then [char_of (48 + n)] else decimal (n div 10) @ [char_of (48 + n mod 10)])"

declare decimal.simps [simp del]

end
