(* ===== verification/Address_Book.thy ===== *)
theory Address_Book
  imports Prelude
begin

text \<open>
  The address book of \<open>crates/address-book/src/lib.rs\<close>: peer records, the table of
  \<open>B\<close> buckets with \<open>S\<close> slots each, and the operations that add, remove, select and
  update records.  The hash of \<open>DefaultHasher\<close> and the clock are arguments.  The
  interface \<open>slotted_store\<close> states what a store with one slot per key promises; a
  bucket and the whole table both interpret it.
\<close>

section \<open>Addresses, hashes, records\<close>

text \<open>Network addresses, with the octets of an address as a byte list.\<close>

datatype addr_v2 =
    Ipv4 "u8 list"
  | Ipv6 "u8 list"
  | TorV2 "u8 list"
  | TorV3 "u8 list"
  | I2p "u8 list"
  | Cjdns "u8 list"
  | Unknown u8 "u8 list"

datatype ip_addr = V4 "u8 list" | V6 "u8 list"

text \<open>What the code feeds to a fresh \<open>DefaultHasher\<close>: a byte array or a string.\<close>

datatype hash_key = HashBytes "u8 list" | HashStr string

text \<open>
  The const generics of \<open>Table<B, S, W>\<close> and the (unspecified, but fixed) function
  computed by \<open>DefaultHasher::new()\<close>, hashing one value and \<open>finish()\<close>.
\<close>

record table_cfg =
  nB :: nat
  nS :: nat
  nW :: nat
  default_hash :: "hash_key \<Rightarrow> u64"

definition cfg_ok :: "table_cfg \<Rightarrow> bool" where
  "cfg_ok c \<longleftrightarrow> 0 < nS c \<and> 0 < nW c \<and> nW c \<le> nB c"

record peer_record =
  addr :: addr_v2
  port :: u16
  source :: "u8 list"
  services :: u64
  failed_attempts :: u8
  last_connection :: "duration option"
  last_attempt :: "duration option"

definition one_minute :: duration where
  "one_minute = from_secs 60"

definition one_week :: duration where
  "one_week = from_secs 604800"

definition source_id :: "table_cfg \<Rightarrow> ip_addr \<Rightarrow> u8 list" where
  "source_id c ip = (case ip of
     V4 octets \<Rightarrow> take 4 (to_le_bytes (default_hash c (HashBytes (take 2 octets))))
   | V6 octets \<Rightarrow> take 4 (to_le_bytes (default_hash c (HashBytes (take 4 octets)))))"

definition destination_id_addr :: "table_cfg \<Rightarrow> addr_v2 \<Rightarrow> u8 list" where
  "destination_id_addr c a = (case a of
     Ipv4 octets \<Rightarrow> take 4 (to_le_bytes (default_hash c (HashBytes octets)))
   | Ipv6 octets \<Rightarrow> take 4 (to_le_bytes (default_hash c (HashBytes octets)))
   | I2p key \<Rightarrow> take 4 (to_le_bytes (default_hash c (HashBytes key)))
   | TorV3 key \<Rightarrow> take 4 (to_le_bytes (default_hash c (HashBytes key)))
   | Cjdns octets \<Rightarrow> take 4 (to_le_bytes (default_hash c (HashBytes octets)))
   | _ \<Rightarrow> take 4 (to_le_bytes (default_hash c (HashStr ''unknown network address''))))"

definition destination_id :: "table_cfg \<Rightarrow> peer_record \<Rightarrow> u8 list" where
  "destination_id c r = destination_id_addr c (addr r)"

definition record_new :: "table_cfg \<Rightarrow> addr_v2 \<Rightarrow> u16 \<Rightarrow> u64 \<Rightarrow> ip_addr \<Rightarrow> peer_record" where
  "record_new c a p svc src =
     \<lparr>addr = a, port = p, source = source_id c src, services = svc, failed_attempts = 0,
      last_connection = None, last_attempt = None\<rparr>"

definition new_from_addrv2_source ::
    "table_cfg \<Rightarrow> addr_v2 \<Rightarrow> u16 \<Rightarrow> u64 \<Rightarrow> addr_v2 \<Rightarrow> peer_record" where
  "new_from_addrv2_source c a p svc src =
     \<lparr>addr = a, port = p,
      source = (case src of
                  Ipv4 ip \<Rightarrow> source_id c (V4 ip)
                | Ipv6 ip \<Rightarrow> source_id c (V6 ip)
                | _ \<Rightarrow> [1, 1, 1, 1]),
      services = svc, failed_attempts = 0, last_connection = None, last_attempt = None\<rparr>"

definition network_addr :: "peer_record \<Rightarrow> addr_v2 \<times> u16" where
  "network_addr r = (addr r, port r)"

definition service_flags :: "peer_record \<Rightarrow> u64" where
  "service_flags r = services r"

definition update_service_flags :: "peer_record \<Rightarrow> u64 \<Rightarrow> peer_record" where
  "update_service_flags r flags = r\<lparr>services := flags\<rparr>"

text \<open>\<open>now\<close> is \<open>SystemTime::now()\<close> since the epoch.\<close>

definition is_terrible :: "peer_record \<Rightarrow> duration \<Rightarrow> u8 \<Rightarrow> u8 \<Rightarrow> bool" where
  "is_terrible r now maximum_tries maximum_weekly_tries =
     (case last_attempt r of
        Some attempt \<Rightarrow>
          (let since = now - attempt in
           if since < one_minute then False
           else if failed_attempts r > maximum_weekly_tries \<and> since < one_week then True
           else failed_attempts r > maximum_tries)
      | None \<Rightarrow> failed_attempts r > maximum_tries)"

definition saturating_add_u8 :: "u8 \<Rightarrow> u8 \<Rightarrow> u8" where
  "saturating_add_u8 a b = (if unat a + unat b < 256 then a + b else 255)"

section \<open>Buckets\<close>

record bucket =
  records :: "peer_record option list"

definition derive_slot :: "table_cfg \<Rightarrow> peer_record \<Rightarrow> nat" where
  "derive_slot c r = unat (default_hash c (HashBytes (destination_id c r))) mod nS c"

definition bucket_new :: "table_cfg \<Rightarrow> bucket" where
  "bucket_new c = \<lparr>records = replicate (nS c) None\<rparr>"

definition bucket_add :: "table_cfg \<Rightarrow> bucket \<Rightarrow> peer_record \<Rightarrow> bucket \<times> peer_record option" where
  "bucket_add c b r =
     (let slot = derive_slot c r in
      case records b ! slot of
        Some occupied \<Rightarrow> (b, Some occupied)
      | None \<Rightarrow> (b\<lparr>records := (records b)[slot := Some r]\<rparr>, None))"

definition bucket_remove :: "table_cfg \<Rightarrow> bucket \<Rightarrow> peer_record \<Rightarrow> bucket" where
  "bucket_remove c b r = b\<lparr>records := (records b)[derive_slot c r := None]\<rparr>"

definition has_record :: "table_cfg \<Rightarrow> bucket \<Rightarrow> peer_record \<Rightarrow> bool" where
  "has_record c b r =
     (case records b ! derive_slot c r of Some cmp \<Rightarrow> cmp = r | None \<Rightarrow> False)"

definition bucket_is_empty :: "bucket \<Rightarrow> bool" where
  "bucket_is_empty b = list_all (\<lambda>x. x = None) (records b)"

text \<open>The two calls of \<open>SystemTime::now()\<close> may differ: \<open>now1\<close> and \<open>now2\<close>.\<close>

definition bucket_successful_connection ::
    "table_cfg \<Rightarrow> duration \<Rightarrow> duration \<Rightarrow> bucket \<Rightarrow> peer_record \<Rightarrow> bucket" where
  "bucket_successful_connection c now1 now2 b r =
     (let slot = derive_slot c r in
      case records b ! slot of
        Some q \<Rightarrow> b\<lparr>records := (records b)[slot :=
          Some (q\<lparr>last_attempt := Some now1, last_connection := Some now2,
                  failed_attempts := 0, services := services r\<rparr>)]\<rparr>
      | None \<Rightarrow> b)"

definition bucket_failed_connection ::
    "table_cfg \<Rightarrow> duration \<Rightarrow> bucket \<Rightarrow> peer_record \<Rightarrow> bucket" where
  "bucket_failed_connection c now b r =
     (let slot = derive_slot c r in
      case records b ! slot of
        Some q \<Rightarrow> b\<lparr>records := (records b)[slot :=
          Some (q\<lparr>last_attempt := Some now,
                  failed_attempts := saturating_add_u8 (failed_attempts q) 1\<rparr>)]\<rparr>
      | None \<Rightarrow> b)"

definition bucket_get :: "table_cfg \<Rightarrow> bucket \<Rightarrow> nat \<Rightarrow> peer_record option" where
  "bucket_get c b i = records b ! (i mod nS c)"

section \<open>The table\<close>

record table =
  buckets :: "bucket list"

definition run_width :: "table_cfg \<Rightarrow> nat" where
  "run_width c = nB c div nW c"

definition derive_bucket :: "table_cfg \<Rightarrow> peer_record \<Rightarrow> nat" where
  "derive_bucket c r =
     (let salt = le_val (source r) mod nW c;
          range = (salt * run_width c) mod nB c;
          index = le_val (destination_id c r) mod nW c
      in (range + index) mod nB c)"

text \<open>\<open>h\<close> is the hash of the current \<open>SystemTime\<close>.\<close>

definition random_bucket :: "table_cfg \<Rightarrow> u64 \<Rightarrow> nat" where
  "random_bucket c h = le_val (take 4 (to_le_bytes h)) mod nB c"

definition random_slot :: "table_cfg \<Rightarrow> u64 \<Rightarrow> nat" where
  "random_slot c h = le_val (take 4 (to_le_bytes h)) mod nS c"

definition first_record :: "bucket \<Rightarrow> peer_record option" where
  "first_record b = (case List.map_filter (\<lambda>x. x) (records b) of [] \<Rightarrow> None | r # _ \<Rightarrow> Some r)"

text \<open>A record may be polled when it was never tried, or last tried over a minute ago.\<close>

definition pollable :: "duration \<Rightarrow> peer_record \<Rightarrow> bool" where
  "pollable now r = (case last_attempt r of None \<Rightarrow> True | Some t \<Rightarrow> now - t > one_minute)"

definition random_from_bucket ::
    "table_cfg \<Rightarrow> u64 \<Rightarrow> duration \<Rightarrow> bucket \<Rightarrow> peer_record option option" where
  "random_from_bucket c h now b =
     (if bucket_is_empty b then Some None
      else
        (let slot_index = random_slot c h in
         case cyc_find (nS c) slot_index
                (\<lambda>tmp. Some (case bucket_get c b tmp of
                    None \<Rightarrow> None
                  | Some r \<Rightarrow> if pollable now r then Some r else None))
                ((slot_index + 1) mod nS c) of
           None \<Rightarrow> None
         | Some (Some r) \<Rightarrow> Some (Some r)
         | Some None \<Rightarrow>
             Some (case bucket_get c b slot_index of
                     Some r \<Rightarrow> Some r
                   | None \<Rightarrow> first_record b)))"

definition table_new :: "table_cfg \<Rightarrow> table" where
  "table_new c = \<lparr>buckets = replicate (nB c) (bucket_new c)\<rparr>"

definition table_add :: "table_cfg \<Rightarrow> table \<Rightarrow> peer_record \<Rightarrow> table \<times> peer_record option" where
  "table_add c t r =
     (let i = derive_bucket c r;
          (b, conflict) = bucket_add c (buckets t ! i) r
      in (t\<lparr>buckets := (buckets t)[i := b]\<rparr>, conflict))"

definition table_remove :: "table_cfg \<Rightarrow> table \<Rightarrow> peer_record \<Rightarrow> table" where
  "table_remove c t r =
     (let i = derive_bucket c r
      in t\<lparr>buckets := (buckets t)[i := bucket_remove c (buckets t ! i) r]\<rparr>)"

definition table_count :: "table_cfg \<Rightarrow> table \<Rightarrow> peer_record \<Rightarrow> nat" where
  "table_count c t r = length (filter (\<lambda>b. has_record c b r) (buckets t))"

definition table_is_empty :: "table \<Rightarrow> bool" where
  "table_is_empty t = list_all bucket_is_empty (buckets t)"

text \<open>
  \<open>env i\<close> holds the clock readings made while bucket \<open>i\<close> is polled: the hash of
  the time that picks the slot, and the time itself.
\<close>

definition select ::
    "table_cfg \<Rightarrow> u64 \<Rightarrow> (nat \<Rightarrow> u64 \<times> duration) \<Rightarrow> table \<Rightarrow> peer_record option option" where
  "select c h env t =
     (if table_is_empty t then Some None
      else
        (let bucket_index = random_bucket c h;
             b = buckets t ! bucket_index
         in if bucket_is_empty b then
              cyc_find (nB c) bucket_index
                (\<lambda>tmp. random_from_bucket c (fst (env tmp)) (snd (env tmp)) (buckets t ! tmp))
                ((bucket_index + 1) mod nB c)
            else random_from_bucket c (fst (env bucket_index)) (snd (env bucket_index)) b))"

definition table_successful_connection ::
    "table_cfg \<Rightarrow> duration \<Rightarrow> duration \<Rightarrow> table \<Rightarrow> peer_record \<Rightarrow> table" where
  "table_successful_connection c now1 now2 t r =
     (let i = derive_bucket c r
      in t\<lparr>buckets := (buckets t)[i := bucket_successful_connection c now1 now2 (buckets t ! i) r]\<rparr>)"

definition table_failed_connection ::
    "table_cfg \<Rightarrow> duration \<Rightarrow> table \<Rightarrow> peer_record \<Rightarrow> table" where
  "table_failed_connection c now t r =
     (let i = derive_bucket c r
      in t\<lparr>buckets := (buckets t)[i := bucket_failed_connection c now (buckets t ! i) r]\<rparr>)"

section \<open>Indices stay in range\<close>

lemma derive_slot_less [simp]: "cfg_ok c \<Longrightarrow> derive_slot c r < nS c"
  by (simp add: cfg_ok_def derive_slot_def)

lemma derive_bucket_less [simp]: "cfg_ok c \<Longrightarrow> derive_bucket c r < nB c"
  by (simp add: cfg_ok_def derive_bucket_def Let_def)

lemma random_slot_less [simp]: "cfg_ok c \<Longrightarrow> random_slot c h < nS c"
  by (simp add: cfg_ok_def random_slot_def)

lemma random_bucket_less [simp]: "cfg_ok c \<Longrightarrow> random_bucket c h < nB c"
  by (simp add: cfg_ok_def random_bucket_def)

lemma derive_slot_cong: "addr q = addr r \<Longrightarrow> derive_slot c q = derive_slot c r"
  by (simp add: derive_slot_def destination_id_def)

lemma derive_bucket_cong:
  "addr q = addr r \<Longrightarrow> source q = source r \<Longrightarrow> derive_bucket c q = derive_bucket c r"
  by (simp add: derive_bucket_def destination_id_def)

lemmas index_bounds = derive_slot_less derive_bucket_less random_slot_less random_bucket_less

section \<open>A store with one slot per key\<close>

locale slotted_store =
  fixes inv :: "'t \<Rightarrow> bool"
    and key :: "'r \<Rightarrow> 'k"
    and look :: "'t \<Rightarrow> 'k \<Rightarrow> 'r option"
    and ins :: "'t \<Rightarrow> 'r \<Rightarrow> 't \<times> 'r option"
    and del :: "'t \<Rightarrow> 'r \<Rightarrow> 't"
  assumes inv_ins: "inv t \<Longrightarrow> inv (fst (ins t r))"
    and inv_del: "inv t \<Longrightarrow> inv (del t r)"
    and ins_free: "inv t \<Longrightarrow> look t (key r) = None \<Longrightarrow>
          snd (ins t r) = None \<and> look (fst (ins t r)) = (look t)(key r \<mapsto> r)"
    and ins_conflict: "inv t \<Longrightarrow> look t (key r) = Some q \<Longrightarrow> ins t r = (t, Some q)"
    and look_del: "inv t \<Longrightarrow> look (del t r) = (look t)(key r := None)"
    and look_key: "inv t \<Longrightarrow> look t k = Some r \<Longrightarrow> key r = k"
begin

lemma ins_result: "inv t \<Longrightarrow> snd (ins t r) = look t (key r)"
  by (cases "look t (key r)") (simp_all add: ins_free ins_conflict)

lemma ins_look: "inv t \<Longrightarrow> look (fst (ins t r)) (key r) \<noteq> None"
  by (cases "look t (key r)") (simp_all add: ins_free ins_conflict)

lemma ins_twice: "inv t \<Longrightarrow> snd (ins (fst (ins t r)) r) \<noteq> None"
  by (simp add: ins_result inv_ins ins_look)

lemma del_ins: "inv t \<Longrightarrow> snd (ins (del t r) r) = None"
  by (simp add: ins_result inv_del look_del)

lemma ins_other: "inv t \<Longrightarrow> k \<noteq> key r \<Longrightarrow> look (fst (ins t r)) k = look t k"
  by (cases "look t (key r)") (simp_all add: ins_free ins_conflict)

lemma inv_ins_all: "inv t \<Longrightarrow> inv (foldl (\<lambda>t r. fst (ins t r)) t rs)"
  by (induction rs arbitrary: t) (auto simp: inv_ins)

lemma look_ins_all:
  assumes "inv t" "distinct (map key rs)" "\<And>r. r \<in> set rs \<Longrightarrow> look t (key r) = None"
  shows "look (foldl (\<lambda>t r. fst (ins t r)) t rs) = look t ++ map_of (map (\<lambda>r. (key r, r)) rs)"
  using assms
proof (induction rs arbitrary: t)
  case Nil
  then show ?case by simp
next
  case (Cons r rs)
  let ?t = "fst (ins t r)"
  have l: "look ?t = (look t)(key r \<mapsto> r)"
    using Cons.prems ins_free by simp
  have "look (foldl (\<lambda>t r. fst (ins t r)) ?t rs) = look ?t ++ map_of (map (\<lambda>r. (key r, r)) rs)"
    using Cons.prems by (intro Cons.IH) (auto simp: inv_ins l image_iff)
  moreover have "key r \<notin> dom (map_of (map (\<lambda>r. (key r, r)) rs))"
    using Cons.prems(2) by (auto simp: dom_map_of_conv_image_fst)
  ultimately show ?case
    by (auto simp: l fun_eq_iff map_add_def dom_def split: option.split)
qed

end

section \<open>Buckets and tables are slotted stores\<close>

definition bucket_inv :: "table_cfg \<Rightarrow> bucket \<Rightarrow> bool" where
  "bucket_inv c b \<longleftrightarrow> cfg_ok c \<and> length (records b) = nS c
     \<and> (\<forall>s < nS c. \<forall>r. records b ! s = Some r \<longrightarrow> derive_slot c r = s)"

definition bucket_look :: "table_cfg \<Rightarrow> bucket \<Rightarrow> nat \<Rightarrow> peer_record option" where
  "bucket_look c b s = (if s < nS c then records b ! s else None)"

definition table_inv :: "table_cfg \<Rightarrow> table \<Rightarrow> bool" where
  "table_inv c t \<longleftrightarrow> cfg_ok c \<and> length (buckets t) = nB c
     \<and> (\<forall>i < nB c. bucket_inv c (buckets t ! i)
          \<and> (\<forall>s < nS c. \<forall>r. records (buckets t ! i) ! s = Some r \<longrightarrow> derive_bucket c r = i))"

definition table_key :: "table_cfg \<Rightarrow> peer_record \<Rightarrow> nat \<times> nat" where
  "table_key c r = (derive_bucket c r, derive_slot c r)"

definition table_look :: "table_cfg \<Rightarrow> table \<Rightarrow> nat \<times> nat \<Rightarrow> peer_record option" where
  "table_look c t k = (if fst k < nB c then bucket_look c (buckets t ! fst k) (snd k) else None)"

lemma bucket_inv_cfg: "bucket_inv c b \<Longrightarrow> cfg_ok c"
  by (simp add: bucket_inv_def)

lemma table_inv_cfg: "table_inv c t \<Longrightarrow> cfg_ok c"
  by (simp add: table_inv_def)

lemma table_inv_bucket: "table_inv c t \<Longrightarrow> i < nB c \<Longrightarrow> bucket_inv c (buckets t ! i)"
  by (simp add: table_inv_def)

lemma bucket_inv_update:
  assumes "bucket_inv c b" "s < nS c" "\<And>r. x = Some r \<Longrightarrow> derive_slot c r = s"
  shows "bucket_inv c (b\<lparr>records := (records b)[s := x]\<rparr>)"
  using assms by (auto simp: bucket_inv_def nth_list_update)

lemma bucket_look_update:
  assumes "bucket_inv c b" "s < nS c"
  shows "bucket_look c (b\<lparr>records := (records b)[s := x]\<rparr>) = (bucket_look c b)(s := x)"
  using assms by (auto simp: bucket_look_def bucket_inv_def fun_eq_iff)

lemma bucket_add_cases:
  assumes "bucket_inv c b"
  shows "bucket_add c b r = (case bucket_look c b (derive_slot c r) of
           Some q \<Rightarrow> (b, Some q)
         | None \<Rightarrow> (b\<lparr>records := (records b)[derive_slot c r := Some r]\<rparr>, None))"
  using bucket_inv_cfg [OF assms] by (simp add: bucket_add_def bucket_look_def Let_def)

interpretation bucket_store: slotted_store
  "bucket_inv c" "derive_slot c" "bucket_look c" "bucket_add c" "bucket_remove c"
proof unfold_locales
  fix b r q s
  assume inv: "bucket_inv c b"
  have s: "derive_slot c r < nS c" using bucket_inv_cfg [OF inv] by simp
  show "bucket_inv c (fst (bucket_add c b r))"
    using inv s by (auto simp: bucket_add_cases intro!: bucket_inv_update split: option.split)
  show "bucket_inv c (bucket_remove c b r)"
    using inv s by (auto simp: bucket_remove_def intro!: bucket_inv_update)
  show "bucket_look c (bucket_remove c b r) = (bucket_look c b)(derive_slot c r := None)"
    using inv s by (simp add: bucket_remove_def bucket_look_update)
  show "bucket_look c b (derive_slot c r) = None \<Longrightarrow>
      snd (bucket_add c b r) = None
      \<and> bucket_look c (fst (bucket_add c b r)) = (bucket_look c b)(derive_slot c r \<mapsto> r)"
    using inv s by (simp add: bucket_add_cases bucket_look_update)
  show "bucket_look c b (derive_slot c r) = Some q \<Longrightarrow> bucket_add c b r = (b, Some q)"
    using inv by (simp add: bucket_add_cases)
  show "bucket_look c b s = Some r \<Longrightarrow> derive_slot c r = s"
    using inv by (auto simp: bucket_look_def bucket_inv_def split: if_splits)
qed

lemma table_inv_update:
  assumes "table_inv c t" "i < nB c" "bucket_inv c b"
    and "\<And>s r. bucket_look c b s = Some r \<Longrightarrow> derive_bucket c r = i"
  shows "table_inv c (t\<lparr>buckets := (buckets t)[i := b]\<rparr>)"
proof -
  have "derive_bucket c r = i" if "s < nS c" "records b ! s = Some r" for s r
    using assms(4) [of s r] that by (simp add: bucket_look_def)
  then show ?thesis using assms(1-3) by (auto simp: table_inv_def nth_list_update)
qed

lemma table_look_update:
  assumes "table_inv c t" "i < nB c"
  shows "table_look c (t\<lparr>buckets := (buckets t)[i := b]\<rparr>) (j, s)
    = (if j = i then bucket_look c b s else table_look c t (j, s))"
  using assms by (auto simp: table_look_def table_inv_def)

lemma table_look_bucket:
  "table_inv c t \<Longrightarrow> i < nB c \<Longrightarrow> table_look c t (i, s) = bucket_look c (buckets t ! i) s"
  by (simp add: table_look_def)

lemma table_look_key: "table_inv c t \<Longrightarrow> table_look c t k = Some r \<Longrightarrow> table_key c r = k"
  by (cases k) (auto simp: table_look_def table_key_def table_inv_def bucket_inv_def bucket_look_def
      split: if_splits)

lemma table_bucket_source:
  assumes "table_inv c t" "i < nB c" "bucket_look c (buckets t ! i) s = Some r"
  shows "derive_bucket c r = i"
  using assms by (auto simp: table_inv_def bucket_look_def split: if_splits)

text \<open>Replacing one bucket by one that holds records of that bucket only.\<close>

lemma table_add_split:
  "table_add c t r =
     (t\<lparr>buckets := (buckets t)[derive_bucket c r :=
          fst (bucket_add c (buckets t ! derive_bucket c r) r)]\<rparr>,
      snd (bucket_add c (buckets t ! derive_bucket c r) r))"
  by (simp add: table_add_def Let_def split_beta)

lemma table_inv_add:
  assumes "table_inv c t"
  shows "table_inv c (fst (table_add c t r))"
proof -
  let ?i = "derive_bucket c r"
  let ?b = "buckets t ! ?i"
  have i: "?i < nB c" and b: "bucket_inv c ?b"
    using assms by (auto simp: table_inv_cfg table_inv_bucket)
  have "derive_bucket c q = ?i" if "bucket_look c (fst (bucket_add c ?b r)) s = Some q" for s q
  proof (cases "bucket_look c ?b (derive_slot c r)")
    case None
    then show ?thesis
      using that bucket_store.ins_free [OF b None] table_bucket_source [OF assms i]
      by (auto split: if_splits)
  next
    case (Some x)
    then show ?thesis
      using that bucket_store.ins_conflict [OF b Some] table_bucket_source [OF assms i] by auto
  qed
  then show ?thesis
    using assms i b by (simp add: table_add_split table_inv_update bucket_store.inv_ins)
qed

lemma table_inv_remove:
  assumes "table_inv c t"
  shows "table_inv c (table_remove c t r)"
proof -
  let ?i = "derive_bucket c r"
  have i: "?i < nB c" and b: "bucket_inv c (buckets t ! ?i)"
    using assms by (auto simp: table_inv_cfg table_inv_bucket)
  show ?thesis
    unfolding table_remove_def Let_def
    by (intro table_inv_update assms i bucket_store.inv_del b)
      (auto simp: bucket_store.look_del [OF b] table_bucket_source [OF assms i] split: if_splits)
qed

interpretation table_store: slotted_store
  "table_inv c" "table_key c" "table_look c" "table_add c" "table_remove c"
proof unfold_locales
  fix t r q k
  assume inv: "table_inv c t"
  let ?i = "derive_bucket c r"
  have i: "?i < nB c" and b: "bucket_inv c (buckets t ! ?i)"
    using inv by (auto simp: table_inv_cfg table_inv_bucket)
  show "table_inv c (fst (table_add c t r))" using inv by (rule table_inv_add)
  show "table_inv c (table_remove c t r)" using inv by (rule table_inv_remove)
  show "table_look c (table_remove c t r) = (table_look c t)(table_key c r := None)"
    using inv i b by (auto simp: table_remove_def Let_def table_look_update table_key_def
        bucket_store.look_del table_look_bucket fun_eq_iff)
  show "table_look c t (table_key c r) = None \<Longrightarrow>
      snd (table_add c t r) = None
      \<and> table_look c (fst (table_add c t r)) = (table_look c t)(table_key c r \<mapsto> r)"
    using inv i b by (auto simp: table_add_split table_look_update table_key_def
        bucket_store.ins_free table_look_bucket fun_eq_iff)
  show "table_look c t (table_key c r) = Some q \<Longrightarrow> table_add c t r = (t, Some q)"
    using inv i b by (auto simp: table_add_split table_key_def table_look_bucket
        bucket_store.ins_conflict)
  show "table_look c t k = Some r \<Longrightarrow> table_key c r = k"
    using inv by (rule table_look_key)
qed

section \<open>Connection reports\<close>

text \<open>
  A connection report rewrites the record stored in the slot of its argument and keeps
  its address and source, so the record stays where it is.
\<close>

definition report_success :: "duration \<Rightarrow> duration \<Rightarrow> peer_record \<Rightarrow> peer_record \<Rightarrow> peer_record" where
  "report_success now1 now2 r q =
     q\<lparr>last_attempt := Some now1, last_connection := Some now2,
       failed_attempts := 0, services := services r\<rparr>"

definition report_failure :: "duration \<Rightarrow> peer_record \<Rightarrow> peer_record" where
  "report_failure now q =
     q\<lparr>last_attempt := Some now,
       failed_attempts := saturating_add_u8 (failed_attempts q) 1\<rparr>"

lemma report_keeps_key [simp]:
  "addr (report_success now1 now2 r q) = addr q" "source (report_success now1 now2 r q) = source q"
  "addr (report_failure now q) = addr q" "source (report_failure now q) = source q"
  by (simp_all add: report_success_def report_failure_def)

definition table_rewrite ::
    "table_cfg \<Rightarrow> (peer_record \<Rightarrow> peer_record) \<Rightarrow> table \<Rightarrow> peer_record \<Rightarrow> table" where
  "table_rewrite c f t r =
     (let i = derive_bucket c r; b = buckets t ! i; s = derive_slot c r in
      t\<lparr>buckets := (buckets t)[i := b\<lparr>records := (records b)[s := map_option f (records b ! s)]\<rparr>]\<rparr>)"

lemma list_update_self: "xs[i := xs ! i] = xs"
  by simp

lemma table_successful_connection_rewrite:
  "table_successful_connection c now1 now2 t r = table_rewrite c (report_success now1 now2 r) t r"
proof (cases "records (buckets t ! derive_bucket c r) ! derive_slot c r")
  case None
  then show ?thesis
    using list_update_self [of "records (buckets t ! derive_bucket c r)" "derive_slot c r"]
    by (simp add: table_successful_connection_def bucket_successful_connection_def table_rewrite_def Let_def)
next
  case (Some q)
  then show ?thesis
    by (simp add: table_successful_connection_def bucket_successful_connection_def table_rewrite_def
        Let_def report_success_def)
qed

lemma table_failed_connection_rewrite:
  "table_failed_connection c now t r = table_rewrite c (report_failure now) t r"
proof (cases "records (buckets t ! derive_bucket c r) ! derive_slot c r")
  case None
  then show ?thesis
    using list_update_self [of "records (buckets t ! derive_bucket c r)" "derive_slot c r"]
    by (simp add: table_failed_connection_def bucket_failed_connection_def table_rewrite_def Let_def)
next
  case (Some q)
  then show ?thesis
    by (simp add: table_failed_connection_def bucket_failed_connection_def table_rewrite_def
        Let_def report_failure_def)
qed

lemma table_rewrite:
  assumes inv: "table_inv c t"
    and f: "\<And>q. addr (f q) = addr q" "\<And>q. source (f q) = source q"
  shows "table_inv c (table_rewrite c f t r)"
    and "table_look c (table_rewrite c f t r) =
      (table_look c t)(table_key c r := map_option f (table_look c t (table_key c r)))"
proof -
  let ?i = "derive_bucket c r" and ?s = "derive_slot c r"
  let ?b = "buckets t ! ?i"
  let ?x = "map_option f (records ?b ! ?s)"
  let ?b' = "?b\<lparr>records := (records ?b)[?s := ?x]\<rparr>"
  have i: "?i < nB c" and s: "?s < nS c" and b: "bucket_inv c ?b"
    using inv by (auto simp: table_inv_cfg table_inv_bucket)
  have slot: "derive_slot c q = ?s" "derive_bucket c q = ?i" if x: "?x = Some q" for q
  proof -
    obtain q' where q': "records ?b ! ?s = Some q'" "q = f q'" using x by auto
    have "bucket_look c ?b ?s = Some q'" using q'(1) s by (simp add: bucket_look_def)
    then have "derive_slot c q' = ?s" "derive_bucket c q' = ?i"
      by (rule bucket_store.look_key [OF b], rule table_bucket_source [OF inv i])
    then show "derive_slot c q = ?s" "derive_bucket c q = ?i"
      using derive_slot_cong [of q q' c] derive_bucket_cong [of q q' c]
      by (simp_all add: q'(2) f)
  qed
  have b': "bucket_inv c ?b'" using b s slot by (intro bucket_inv_update)
  have look: "bucket_look c ?b' = (bucket_look c ?b)(?s := ?x)"
    using b s by (rule bucket_look_update)
  show "table_inv c (table_rewrite c f t r)"
    unfolding table_rewrite_def Let_def
  proof (intro table_inv_update inv i b')
    fix s' q assume q: "bucket_look c ?b' s' = Some q"
    show "derive_bucket c q = ?i"
    proof (cases "s' = ?s")
      case True
      then show ?thesis using q slot(2) by (simp only: look fun_upd_same)
    next
      case False
      then have "bucket_look c ?b s' = Some q" using q by (simp add: look)
      then show ?thesis by (rule table_bucket_source [OF inv i])
    qed
  qed
  show "table_look c (table_rewrite c f t r) =
      (table_look c t)(table_key c r := map_option f (table_look c t (table_key c r)))"
  proof (rule ext)
    fix k :: "nat \<times> nat"
    obtain j u where k: "k = (j, u)" by (cases k)
    have "table_look c (table_rewrite c f t r) k
        = (if j = ?i then ((bucket_look c ?b)(?s := ?x)) u else table_look c t k)"
      unfolding table_rewrite_def Let_def k table_look_update [OF inv i] look ..
    moreover have "table_look c t (?i, u) = bucket_look c ?b u" for u
      using inv i by (rule table_look_bucket)
    moreover have "bucket_look c ?b ?s = records ?b ! ?s"
      using s by (simp add: bucket_look_def)
    ultimately show "table_look c (table_rewrite c f t r) k =
      ((table_look c t)(table_key c r := map_option f (table_look c t (table_key c r)))) k"
      by (simp add: table_key_def k)
  qed
qed

section \<open>Reachable tables\<close>

inductive table_reachable :: "table_cfg \<Rightarrow> table \<Rightarrow> bool" for c where
  new: "table_reachable c (table_new c)"
| add: "table_reachable c t \<Longrightarrow> table_reachable c (fst (table_add c t r))"
| remove: "table_reachable c t \<Longrightarrow> table_reachable c (table_remove c t r)"
| success: "table_reachable c t \<Longrightarrow> table_reachable c (table_successful_connection c now1 now2 t r)"
| failure: "table_reachable c t \<Longrightarrow> table_reachable c (table_failed_connection c now t r)"

lemma table_inv_new: "cfg_ok c \<Longrightarrow> table_inv c (table_new c)"
  by (simp add: table_inv_def table_new_def bucket_inv_def bucket_new_def)

lemma table_look_new: "table_look c (table_new c) k = None"
  by (simp add: table_look_def table_new_def bucket_look_def bucket_new_def)

lemma table_reachable_inv:
  assumes "table_reachable c t" "cfg_ok c"
  shows "table_inv c t"
  using assms
proof (induction rule: table_reachable.induct)
  case new
  then show ?case by (rule table_inv_new)
next
  case (add t r)
  then show ?case by (simp add: table_store.inv_ins)
next
  case (remove t r)
  then show ?case by (simp add: table_store.inv_del)
next
  case (success t now1 now2 r)
  then show ?case by (simp add: table_successful_connection_rewrite table_rewrite)
next
  case (failure t now r)
  then show ?case by (simp add: table_failed_connection_rewrite table_rewrite)
qed


section \<open>One source cannot fill the table\<close>

definition source_buckets :: "table_cfg \<Rightarrow> u8 list \<Rightarrow> nat set" where
  "source_buckets c src =
     (\<lambda>index. ((le_val src mod nW c * run_width c) mod nB c + index) mod nB c) ` {..<nW c}"

lemma derive_bucket_source: "cfg_ok c \<Longrightarrow> derive_bucket c r \<in> source_buckets c (source r)"
  by (auto simp: derive_bucket_def source_buckets_def Let_def cfg_ok_def)

lemma card_source_buckets: "card (source_buckets c src) \<le> nW c"
  unfolding source_buckets_def by (rule order_trans [OF card_image_le]) simp_all

lemma finite_source_buckets [simp]: "finite (source_buckets c src)"
  by (simp add: source_buckets_def)

lemma source_slots_bounded:
  assumes inv: "table_inv c t" and "cfg_ok c"
  shows "card {k. \<exists>r. table_look c t k = Some r \<and> source r = src} \<le> nW c * nS c"
proof -
  let ?K = "{k. \<exists>r. table_look c t k = Some r \<and> source r = src}"
  have "?K \<subseteq> source_buckets c src \<times> {..<nS c}"
  proof
    fix k assume "k \<in> ?K"
    then obtain r where r: "table_look c t k = Some r" "source r = src" by blast
    then have "k = (derive_bucket c r, derive_slot c r)"
      using table_store.look_key [OF inv r(1)] by (simp add: table_key_def)
    then show "k \<in> source_buckets c src \<times> {..<nS c}"
      using r(2) derive_bucket_source [OF assms(2), of r] assms(2) by simp
  qed
  then have "card ?K \<le> card (source_buckets c src \<times> {..<nS c})"
    by (intro card_mono) auto
  also have "\<dots> = card (source_buckets c src) * nS c"
    by (simp add: card_cartesian_product)
  also have "\<dots> \<le> nW c * nS c"
    using card_source_buckets by simp
  finally show ?thesis .
qed

text \<open>
  C5: In every reachable table at most \<open>W * S\<close> of the \<open>B * S\<close> slots hold records
  gossiped by one source: a single peer cannot fill the address book.
\<close>

theorem single_source_bounded:
  assumes "table_reachable c t" "cfg_ok c"
  shows "card {k. \<exists>r. table_look c t k = Some r \<and> source r = src} \<le> nW c * nS c"
  using assms by (intro source_slots_bounded table_reachable_inv)

section \<open>Adding and counting\<close>

lemma has_record_look:
  "bucket_inv c b \<Longrightarrow> has_record c b r \<longleftrightarrow> bucket_look c b (derive_slot c r) = Some r"
  by (auto simp: has_record_def bucket_look_def bucket_inv_cfg split: option.split)

lemma table_count_look:
  assumes inv: "table_inv c t"
  shows "table_count c t r = (if table_look c t (table_key c r) = Some r then 1 else 0)"
proof -
  let ?I = "{i. i < length (buckets t) \<and> has_record c (buckets t ! i) r}"
  have len: "length (buckets t) = nB c" using inv by (simp add: table_inv_def)
  have mem: "i \<in> ?I \<longleftrightarrow> i = derive_bucket c r \<and> table_look c t (table_key c r) = Some r" for i
  proof
    assume i: "i \<in> ?I"
    then have r: "bucket_look c (buckets t ! i) (derive_slot c r) = Some r"
      using has_record_look table_inv_bucket [OF inv] len by auto
    then have "derive_bucket c r = i"
      using i len by (intro table_bucket_source [OF inv]) auto
    then show "i = derive_bucket c r \<and> table_look c t (table_key c r) = Some r"
      using r i len by (auto simp: table_key_def table_look_def)
  next
    assume i: "i = derive_bucket c r \<and> table_look c t (table_key c r) = Some r"
    then have "i < nB c" using inv by (simp add: table_inv_cfg)
    then show "i \<in> ?I"
      using i len has_record_look [OF table_inv_bucket [OF inv]]
      by (simp add: table_key_def table_look_bucket [OF inv])
  qed
  have "table_count c t r = card ?I"
    by (simp add: table_count_def length_filter_conv_card)
  also have "?I = (if table_look c t (table_key c r) = Some r then {derive_bucket c r} else {})"
    using mem by auto
  finally show ?thesis by simp
qed

text \<open>
  Adding a record either stores it, so that it is then counted exactly once and no
  other record is affected, or, when its slot is taken, leaves the table as it was and
  returns the record that occupies the same bucket and slot.
\<close>

lemma table_add_spec:
  assumes "table_reachable c t" "cfg_ok c"
  shows "case table_add c t r of
      (t', None) \<Rightarrow> table_count c t r = 0 \<and> table_count c t' r = 1
        \<and> (\<forall>q. q \<noteq> r \<longrightarrow> table_count c t' q = table_count c t q)
    | (t', Some q) \<Rightarrow> t' = t \<and> table_count c t q = 1
        \<and> derive_bucket c q = derive_bucket c r \<and> derive_slot c q = derive_slot c r"
proof -
  have inv: "table_inv c t" using assms by (rule table_reachable_inv)
  show ?thesis
  proof (cases "table_look c t (table_key c r)")
    case None
    have look: "table_look c (fst (table_add c t r)) = (table_look c t)(table_key c r \<mapsto> r)"
      and snd: "snd (table_add c t r) = None"
      using table_store.ins_free [OF inv None] by auto
    have inv': "table_inv c (fst (table_add c t r))" using inv by (rule table_store.inv_ins)
    have "table_count c (fst (table_add c t r)) q = table_count c t q" if "q \<noteq> r" for q
      using that None by (auto simp: table_count_look [OF inv] table_count_look [OF inv'] look)
    then show ?thesis
      using None look snd
      by (auto simp: table_count_look [OF inv] table_count_look [OF inv'] split_beta split: option.split)
  next
    case (Some q)
    then have "table_key c q = table_key c r" using table_store.look_key [OF inv] by blast
    then show ?thesis
      using Some table_store.ins_conflict [OF inv Some]
      by (simp add: table_count_look [OF inv] table_key_def)
  qed
qed

text \<open>
  C39: \<open>count\<close> compares whole records, not network addresses: once a failed connection
  has been reported for a stored record, the record the caller holds is counted zero times.
\<close>

theorem table_count_after_failure:
  assumes "table_reachable c t" "cfg_ok c" "table_count c t r = 1" "last_attempt r \<noteq> Some now"
  shows "table_count c (table_failed_connection c now t r) r = 0
    \<and> (\<exists>q. table_count c (table_failed_connection c now t r) q = 1 \<and> network_addr q = network_addr r)"
proof -
  have inv: "table_inv c t" using assms(1,2) by (rule table_reachable_inv)
  let ?t = "table_failed_connection c now t r"
  have stored: "table_look c t (table_key c r) = Some r"
    using assms(3) by (simp add: table_count_look [OF inv] split: if_splits)
  have inv': "table_inv c ?t"
    and look: "table_look c ?t = (table_look c t)(table_key c r \<mapsto> report_failure now r)"
    using table_rewrite [OF inv, of "report_failure now" r] stored
    by (simp_all add: table_failed_connection_rewrite)
  have ne: "report_failure now r \<noteq> r"
  proof
    assume eq: "report_failure now r = r"
    have "last_attempt (report_failure now r) = Some now" by (simp add: report_failure_def)
    then show False using assms(4) unfolding eq by simp
  qed
  let ?q = "report_failure now r"
  have key: "table_key c ?q = table_key c r"
    using derive_slot_cong [of ?q r c] derive_bucket_cong [of ?q r c] by (simp add: table_key_def)
  have "table_count c ?t ?q = 1"
    by (simp add: table_count_look [OF inv'] key look)
  moreover have "network_addr ?q = network_addr r"
    by (simp add: network_addr_def report_failure_def)
  moreover have "table_count c ?t r = 0"
    using ne by (simp add: table_count_look [OF inv'] look)
  ultimately show ?thesis by blast
qed

section \<open>Selecting a peer\<close>

lemma bucket_is_empty_look:
  assumes "bucket_inv c b"
  shows "bucket_is_empty b \<longleftrightarrow> (\<forall>s. bucket_look c b s = None)"
  using assms by (auto simp: bucket_is_empty_def list_all_length bucket_look_def bucket_inv_def)

lemma first_record_cases:
  assumes "bucket_inv c b" "\<not> bucket_is_empty b"
  obtains r s where "first_record b = Some r" "bucket_look c b s = Some r"
proof -
  obtain x where x: "x \<in> set (records b)" "x \<noteq> None"
    using assms(2) by (auto simp: bucket_is_empty_def list_all_iff)
  then have "List.map_filter (\<lambda>x. x) (records b) \<noteq> []"
    by (auto simp: List.map_filter_def filter_empty_conv)
  then obtain r rs where m: "List.map_filter (\<lambda>x. x) (records b) = r # rs"
    by (cases "List.map_filter (\<lambda>x. x) (records b)") auto
  then have "r \<in> set (List.map_filter (\<lambda>x. x) (records b))" by simp
  then have "Some r \<in> set (records b)" by (auto simp: List.map_filter_def)
  then obtain s where "s < length (records b)" "records b ! s = Some r"
    by (auto simp: in_set_conv_nth)
  then have "bucket_look c b s = Some r"
    using assms(1) by (simp add: bucket_look_def bucket_inv_def)
  then show ?thesis using that m by (simp add: first_record_def)
qed

lemma bucket_get_look: "cfg_ok c \<Longrightarrow> i < nS c \<Longrightarrow> bucket_get c b i = bucket_look c b i"
  by (simp add: bucket_get_def bucket_look_def)

lemma random_from_bucket_spec:
  assumes inv: "bucket_inv c b" and ne: "\<not> bucket_is_empty b"
  shows "\<exists>r s. random_from_bucket c h now b = Some (Some r) \<and> bucket_look c b s = Some r
    \<and> ((\<exists>s q. bucket_look c b s = Some q \<and> pollable now q) \<longrightarrow> pollable now r)"
proof -
  have cfg: "cfg_ok c" using inv by (rule bucket_inv_cfg)
  let ?slot = "random_slot c h"
  let ?g = "\<lambda>tmp. case bucket_get c b tmp of None \<Rightarrow> None
                  | Some r \<Rightarrow> if pollable now r then Some r else None"
  have slot: "?slot < nS c" using cfg by simp
  show ?thesis
  proof (rule cyc_find_total [OF slot, of "\<lambda>tmp. Some (?g tmp)" ?g])
    fix x i
    assume found: "cyc_find (nS c) ?slot (\<lambda>tmp. Some (?g tmp)) ((?slot + 1) mod nS c) = Some (Some x)"
      and i: "i < nS c" "?g i = Some x"
    then have "bucket_look c b i = Some x" "pollable now x"
      using bucket_get_look [OF cfg, of i] by (auto split: option.splits if_splits)
    then show ?thesis using found ne by (auto simp: random_from_bucket_def Let_def)
  next
    assume none: "cyc_find (nS c) ?slot (\<lambda>tmp. Some (?g tmp)) ((?slot + 1) mod nS c) = Some None"
      and all: "\<forall>i<nS c. i \<noteq> ?slot \<longrightarrow> ?g i = None"
    have only: "s = ?slot" if "bucket_look c b s = Some q" "pollable now q" for s q
      using that all bucket_get_look [OF cfg, of s b]
      by (cases "s < nS c") (auto simp: bucket_look_def)
    have eq: "random_from_bucket c h now b = Some (case bucket_look c b ?slot of
        Some r \<Rightarrow> Some r | None \<Rightarrow> first_record b)"
      using none ne bucket_get_look [OF cfg slot, of b] by (simp add: random_from_bucket_def Let_def)
    show ?thesis
    proof (cases "bucket_look c b ?slot")
      case (Some r)
      then have "pollable now r" if "bucket_look c b s = Some q" "pollable now q" for s q
        using only [OF that] that by simp
      then show ?thesis using Some eq by auto
    next
      case None
      then have "\<not> pollable now q" if "bucket_look c b s = Some q" for s q
        using only [OF that] that by auto
      moreover obtain r s where "first_record b = Some r" "bucket_look c b s = Some r"
        using inv ne by (rule first_record_cases)
      ultimately show ?thesis using None eq by auto
    qed
  qed simp
qed

lemma random_from_bucket_empty: "bucket_is_empty b \<Longrightarrow> random_from_bucket c h now b = Some None"
  by (simp add: random_from_bucket_def)

lemma select_stored:
  assumes "table_reachable c t" "cfg_ok c"
  shows "\<exists>res. select c h env t = Some res
    \<and> (res = None \<longleftrightarrow> table_is_empty t)
    \<and> (\<forall>r. res = Some r \<longrightarrow> table_count c t r = 1)"
proof (cases "table_is_empty t")
  case True
  then show ?thesis by (simp add: select_def)
next
  case False
  have inv: "table_inv c t" using assms by (rule table_reachable_inv)
  have len: "length (buckets t) = nB c" using inv by (simp add: table_inv_def)
  let ?i = "random_bucket c h"
  let ?g = "\<lambda>i. the (random_from_bucket c (fst (env i)) (snd (env i)) (buckets t ! i))"
  have i: "?i < nB c" using assms(2) by simp
  have poll: "\<exists>r. random_from_bucket c (fst (env j)) (snd (env j)) (buckets t ! j) = Some (Some r)
      \<and> table_count c t r = 1"
    if j: "j < nB c" and ne: "\<not> bucket_is_empty (buckets t ! j)" for j
  proof -
    obtain r s where r: "random_from_bucket c (fst (env j)) (snd (env j)) (buckets t ! j) = Some (Some r)"
      "bucket_look c (buckets t ! j) s = Some r"
      using random_from_bucket_spec [OF table_inv_bucket [OF inv j] ne] by blast
    then have "table_look c t (j, s) = Some r" using j by (simp add: table_look_def)
    moreover from this have "table_key c r = (j, s)" using table_store.look_key [OF inv] by blast
    ultimately show ?thesis using r by (simp add: table_count_look [OF inv])
  qed
  have g: "random_from_bucket c (fst (env j)) (snd (env j)) (buckets t ! j) = Some (?g j)"
    if "j < nB c" for j
    using poll [OF that] random_from_bucket_empty [of "buckets t ! j"]
    by (cases "bucket_is_empty (buckets t ! j)") auto
  show ?thesis
  proof (cases "bucket_is_empty (buckets t ! ?i)")
    case nonempty: False
    then show ?thesis using False poll [OF i nonempty] by (auto simp: select_def Let_def)
  next
    case True
    obtain j where j: "j < nB c" "\<not> bucket_is_empty (buckets t ! j)"
      using False len by (auto simp: table_is_empty_def list_all_length)
    let ?f = "\<lambda>tmp. random_from_bucket c (fst (env tmp)) (snd (env tmp)) (buckets t ! tmp)"
    show ?thesis
    proof (rule cyc_find_total [OF i, of ?f ?g])
      show "\<And>i. i < nB c \<Longrightarrow> ?f i = Some (?g i)" by (rule g)
    next
      fix x k
      assume "cyc_find (nB c) ?i ?f ((?i + 1) mod nB c) = Some (Some x)"
        and k: "k < nB c" "?g k = Some x"
      moreover have "table_count c t x = 1"
        using poll [OF k(1)] k(2) random_from_bucket_empty [of "buckets t ! k"]
        by (cases "bucket_is_empty (buckets t ! k)") auto
      ultimately show ?thesis using False True by (simp add: select_def Let_def)
    next
      assume "\<forall>k<nB c. k \<noteq> ?i \<longrightarrow> ?g k = None"
      moreover have "j \<noteq> ?i" using j True by auto
      ultimately have "?g j = None" using j by blast
      with poll [OF j] show ?thesis by auto
    qed
  qed
qed

text \<open>
  C18: \<open>select\<close> always returns; it returns nothing exactly when the address book is
  empty, and otherwise a record that is stored in it.
\<close>

theorem select_total:
  assumes "table_reachable c t" "cfg_ok c"
  shows "\<exists>res. select c h env t = Some res
    \<and> (res = None \<longleftrightarrow> table_is_empty t)
    \<and> (\<forall>r. res = Some r \<longrightarrow> table_count c t r = 1)"
  by (rule select_stored [OF assms])

text \<open>
  Within the bucket that is polled, a record tried during the last minute is only
  returned when the bucket holds no record that may be polled.
\<close>

lemma random_from_bucket_prefers_pollable:
  assumes "table_reachable c t" "cfg_ok c" "i < nB c"
    and "random_from_bucket c h now (buckets t ! i) = Some (Some r)"
    and "s < nS c" "records (buckets t ! i) ! s = Some q" "pollable now q"
  shows "pollable now r"
proof -
  have inv: "bucket_inv c (buckets t ! i)"
    using table_reachable_inv [OF assms(1,2)] assms(3) by (rule table_inv_bucket)
  have q: "bucket_look c (buckets t ! i) s = Some q" using assms by (simp add: bucket_look_def)
  then have "\<not> bucket_is_empty (buckets t ! i)" by (auto simp: bucket_is_empty_look [OF inv])
  from random_from_bucket_spec [OF inv this, of h now] q assms(4,7)
  show ?thesis by auto
qed

section \<open>Failure counts\<close>

lemma unat_saturating_add_u8: "unat (saturating_add_u8 a b) = min 255 (unat a + unat b)"
proof (cases "unat a + unat b < 256")
  case True
  then show ?thesis by (simp add: saturating_add_u8_def unat_word_ariths)
next
  case False
  then show ?thesis by (simp add: saturating_add_u8_def)
qed

text \<open>
  Reporting \<open>n\<close> failed connections to a stored record raises its failure count by
  \<open>n\<close>, saturating at 255 instead of wrapping around, and one successful connection
  resets it.
\<close>

lemma failure_count:
  assumes "table_reachable c t" "cfg_ok c" "table_look c t (table_key c r) = Some q"
  shows "\<exists>q'. table_look c (foldl (\<lambda>t now. table_failed_connection c now t r) t nows) (table_key c r) = Some q'
      \<and> unat (failed_attempts q') = min 255 (unat (failed_attempts q) + length nows)
      \<and> (\<exists>q''. table_look c (table_successful_connection c now1 now2
              (foldl (\<lambda>t now. table_failed_connection c now t r) t nows) r) (table_key c r) = Some q''
            \<and> failed_attempts q'' = 0 \<and> last_attempt q'' = Some now1)"
  using assms
proof (induction nows arbitrary: t q)
  case Nil
  have inv: "table_inv c t" using Nil.prems(1,2) by (rule table_reachable_inv)
  have "unat (failed_attempts q) \<le> 255"
    using unsigned_less [of "failed_attempts q", where 'a = nat] by simp
  then show ?case
    using Nil.prems(3) table_rewrite(2) [OF inv, of "report_success now1 now2 r" r]
    by (simp add: table_successful_connection_rewrite min_absorb2)
      (simp add: report_success_def)
next
  case (Cons now nows)
  have inv: "table_inv c t" using Cons.prems(1,2) by (rule table_reachable_inv)
  let ?t = "table_failed_connection c now t r" and ?q = "report_failure now q"
  have "table_look c ?t (table_key c r) = Some ?q"
    using Cons.prems(3) table_rewrite(2) [OF inv, of "report_failure now" r]
    by (simp add: table_failed_connection_rewrite)
  from Cons.IH [OF table_reachable.failure [OF Cons.prems(1)] Cons.prems(2) this]
  have "\<exists>q'. table_look c (foldl (\<lambda>t now. table_failed_connection c now t r) ?t nows) (table_key c r) = Some q'
      \<and> unat (failed_attempts q') = min 255 (unat (failed_attempts ?q) + length nows)
      \<and> (\<exists>q''. table_look c (table_successful_connection c now1 now2
              (foldl (\<lambda>t now. table_failed_connection c now t r) ?t nows) r) (table_key c r) = Some q''
            \<and> failed_attempts q'' = 0 \<and> last_attempt q'' = Some now1)" .
  moreover have "min 255 (unat (failed_attempts ?q) + length nows)
      = min 255 (unat (failed_attempts q) + length (now # nows))"
    by (simp add: report_failure_def unat_saturating_add_u8)
  ultimately show ?case by simp
qed

section \<open>A concrete table\<close>

text \<open>A small table and record on which the theorems are exercised.\<close>

definition demo_cfg :: table_cfg where
  "demo_cfg = \<lparr>nB = 4, nS = 2, nW = 2, default_hash = (\<lambda>k. case k of HashBytes bs \<Rightarrow> of_nat (le_val bs) | HashStr s \<Rightarrow> 7)\<rparr>"

definition demo_record :: peer_record where
  "demo_record = record_new demo_cfg (Ipv4 [10, 0, 0, 1]) 8333 1 (V4 [1, 1, 1, 1])"

definition demo_table :: table where
  "demo_table = fst (table_add demo_cfg (table_new demo_cfg) demo_record)"

lemma demo_cfg_ok: "cfg_ok demo_cfg"
  by (simp add: cfg_ok_def demo_cfg_def)

lemma demo_cfg_sizes: "nB demo_cfg = 4" "nS demo_cfg = 2" "nW demo_cfg = 2"
  by (simp_all add: demo_cfg_def)

lemma demo_reachable: "table_reachable demo_cfg (table_new demo_cfg)" "table_reachable demo_cfg demo_table"
  unfolding demo_table_def by (intro table_reachable.intros)+

lemma demo_destination: "destination_id demo_cfg demo_record = [10, 0, 0, 1]"
  by (simp add: destination_id_def destination_id_addr_def demo_record_def record_new_def
      demo_cfg_def to_le_bytes_def)

lemma demo_source: "source demo_record = [1, 1, 0, 0]"
  by (simp add: demo_record_def record_new_def source_id_def demo_cfg_def to_le_bytes_def)

lemma demo_slots: "derive_bucket demo_cfg demo_record = 2" "derive_slot demo_cfg demo_record = 0"
proof -
  show "derive_bucket demo_cfg demo_record = 2"
    by (simp add: derive_bucket_def demo_destination demo_source run_width_def demo_cfg_sizes)
  show "derive_slot demo_cfg demo_record = 0"
    by (simp add: derive_slot_def demo_destination) (simp add: demo_cfg_def)
qed

lemma demo_table_records: "records (buckets demo_table ! 2) ! 0 = Some demo_record"
  by (simp add: demo_table_def table_add_def bucket_add_def demo_slots table_new_def bucket_new_def
      demo_cfg_sizes)

lemma demo_table_look: "table_look demo_cfg demo_table (table_key demo_cfg demo_record) = Some demo_record"
  by (simp add: table_look_def bucket_look_def table_key_def demo_slots demo_cfg_sizes demo_table_records)

lemma demo_table_count: "table_count demo_cfg demo_table demo_record = 1"
  using table_count_look [OF table_reachable_inv [OF demo_reachable(2) demo_cfg_ok]] demo_table_look
  by simp

lemma demo_record_fields: "last_attempt demo_record = None" "failed_attempts demo_record = 0"
  by (simp_all add: demo_record_def record_new_def)


theorem single_source_bounded_witness:
  "card {k. \<exists>r. table_look demo_cfg demo_table k = Some r \<and> source r = [1, 1, 0, 0]} \<le> 4"
  using single_source_bounded [OF demo_reachable(2) demo_cfg_ok, of "[1, 1, 0, 0]"]
  by (simp add: demo_cfg_sizes)

theorem table_count_after_failure_witness:
  "table_count demo_cfg demo_table demo_record = 1
   \<and> table_count demo_cfg (table_failed_connection demo_cfg 5 demo_table demo_record) demo_record = 0"
  using table_count_after_failure [OF demo_reachable(2) demo_cfg_ok demo_table_count, of 5]
    demo_table_count demo_record_fields by simp

theorem select_total_witness:
  "\<exists>r. select demo_cfg 3 (\<lambda>_. (1, 100)) demo_table = Some (Some r)
    \<and> table_count demo_cfg demo_table r = 1"
proof -
  have "\<not> bucket_is_empty (buckets demo_table ! 2)"
    using demo_table_records table_reachable_inv [OF demo_reachable(2) demo_cfg_ok]
    by (auto simp: bucket_is_empty_def list_all_length table_inv_def bucket_inv_def demo_cfg_sizes
        intro!: exI [of _ 0])
  then have "\<not> table_is_empty demo_table"
    using table_reachable_inv [OF demo_reachable(2) demo_cfg_ok]
    by (auto simp: table_is_empty_def list_all_length table_inv_def demo_cfg_sizes
        intro!: exI [of _ 2])
  then show ?thesis
    using select_total [OF demo_reachable(2) demo_cfg_ok, of 3 "\<lambda>_. (1, 100)"] by auto
qed

end
