(* ===== verification/Messages.thy ===== *)
theory Messages
  imports Prelude Address_Book
begin

text \<open>
  The peer-to-peer messages the program handles, and the checks of
  p2p/src/validation.rs.  The message type belongs to the \<open>bitcoin\<close> crate; the
  datatype has the variants that the sources name, with the data the sources read from
  them, and one constructor for every other command.  Transactions are never inspected at
  this level and stay a type parameter.
\<close>

type_synonym i32 = "32 word"
type_synonym i64 = "64 word"
type_synonym block_hash = "256 word"

record header =
  hdr_version :: i32
  prev_blockhash :: block_hash
  merkle_root :: "256 word"
  hdr_time :: u32
  hdr_bits :: u32
  hdr_nonce :: u32

record 'tx block =
  blk_header :: header
  txdata :: "'tx list"

datatype inventory =
    InvError
  | InvTransaction "256 word"
  | InvBlock block_hash
  | InvCompactBlock block_hash
  | InvWTx "256 word"
  | InvWitnessTransaction "256 word"
  | InvWitnessBlock block_hash
  | InvUnknown u32 "256 word"

record version_message =
  vm_version :: u32
  vm_services :: u64
  vm_timestamp :: i64
  vm_nonce :: u64
  vm_user_agent :: string
  vm_start_height :: i32
  vm_relay :: bool

record send_cmpct =
  send_compact :: bool
  cmpct_version :: u64

record get_locator =
  gl_version :: u32
  locator_hashes :: "block_hash list"
  stop_hash :: block_hash

record addr_v2_message =
  am_time :: u32
  am_services :: u64
  am_addr :: addr_v2
  am_port :: u16

datatype 'tx network_message =
    Version version_message
  | Verack
  | Addr "(u32 \<times> ip_addr \<times> u16) list"
  | AddrV2 "addr_v2_message list"
  | Inv "inventory list"
  | GetData "inventory list"
  | GetBlocks get_locator
  | GetHeaders get_locator
  | MemPool
  | Tx 'tx
  | Block "'tx block"
  | Headers "header list"
  | SendHeaders
  | GetAddr
  | Ping u64
  | Pong u64
  | FilterLoad "u8 list"
  | FilterAdd "u8 list"
  | FilterClear
  | CFilter "u8 list"
  | SendCmpct send_cmpct
  | FeeFilter i64
  | WtxidRelay
  | SendAddrV2
  | OtherMessage string

section \<open>Validation\<close>

definition max_inv_size :: nat where
  "max_inv_size = 50000"

definition max_locator_hashes :: nat where
  "max_locator_hashes = 101"

definition is_handshake_message :: "'tx network_message \<Rightarrow> bool" where
  "is_handshake_message m =
     (case m of Verack \<Rightarrow> True | Version _ \<Rightarrow> True | SendAddrV2 \<Rightarrow> True | WtxidRelay \<Rightarrow> True | _ \<Rightarrow> False)"

definition is_discouraged :: "'tx network_message \<Rightarrow> bool" where
  "is_discouraged m =
     (case m of
        FilterClear \<Rightarrow> True | FilterLoad _ \<Rightarrow> True | FilterAdd _ \<Rightarrow> True | MemPool \<Rightarrow> True
      | Addr addrs \<Rightarrow> length addrs > max_inv_size
      | AddrV2 addrs \<Rightarrow> length addrs > max_inv_size
      | Inv items \<Rightarrow> length items > max_inv_size
      | GetData items \<Rightarrow> length items > max_inv_size
      | GetBlocks gb \<Rightarrow> length (locator_hashes gb) > max_locator_hashes
      | GetHeaders gh \<Rightarrow> length (locator_hashes gh) > max_locator_hashes
      | _ \<Rightarrow> False)"

definition is_malformed :: "'tx network_message \<Rightarrow> bool" where
  "is_malformed m = False"

text \<open>A block without transactions on a given parent, for concrete examples.\<close>

definition demo_block :: "block_hash \<Rightarrow> u32 \<Rightarrow> unit block" where
  "demo_block prev n = \<lparr>blk_header = \<lparr>hdr_version = 1, prev_blockhash = prev, merkle_root = 0,
     hdr_time = 0, hdr_bits = 0, hdr_nonce = n\<rparr>, txdata = []\<rparr>"

end
