(* ===== verification/Download.thy ===== *)
theory Download
  imports Messages "HOL-Library.Sublist"
begin

text \<open>
  \<open>DownloadState\<close> of src/net/peer.rs: the queue of blocks to fetch, the set of blocks
  in flight, and the buffer of received blocks keyed by their parent.  The iteration
  order of a hash set or hash map is not specified by the language; operations that iterate
  take the order as a list argument, and theorems hold for every enumeration.  The
  interface \<open>block_ledger\<close> states what a peer relies on when it takes blocks from the
  shared state and gives them back.
\<close>

record 'b download_state =
  queue :: "block_hash list"
  in_flight :: "block_hash set"
  buffer :: "block_hash \<rightharpoonup> 'b"

definition download_new :: "'b download_state" where
  "download_new = \<lparr>queue = [], in_flight = {}, buffer = Map.empty\<rparr>"

section \<open>Operations\<close>

fun pop_loop ::
    "nat \<Rightarrow> block_hash list \<Rightarrow> block_hash list \<Rightarrow> block_hash set
       \<Rightarrow> block_hash list \<times> block_hash list \<times> block_hash set" where
  "pop_loop n batch [] fl = (batch, [], fl)"
| "pop_loop n batch (h # q) fl =
     (if length batch < n then
        (if h \<in> fl then pop_loop n batch q fl
         else pop_loop n (batch @ [h]) q (insert h fl))
      else (batch, h # q, fl))"

definition pop_batch :: "nat \<Rightarrow> 'b download_state \<Rightarrow> block_hash list \<times> 'b download_state" where
  "pop_batch n d =
     (case pop_loop n [] (queue d) (in_flight d) of
        (batch, q, fl) \<Rightarrow> (batch, d\<lparr>queue := q, in_flight := fl\<rparr>))"

fun claim_loop :: "block_hash list \<Rightarrow> block_hash set \<Rightarrow> block_hash list \<times> block_hash set" where
  "claim_loop [] fl = ([], fl)"
| "claim_loop (h # hs) fl =
     (if h \<in> fl then claim_loop hs fl
      else (case claim_loop hs (insert h fl) of (claimed, fl) \<Rightarrow> (h # claimed, fl)))"

definition claim :: "block_hash list \<Rightarrow> 'b download_state \<Rightarrow> block_hash list \<times> 'b download_state" where
  "claim hashes d =
     (case claim_loop hashes (in_flight d) of (claimed, fl) \<Rightarrow> (claimed, d\<lparr>in_flight := fl\<rparr>))"

definition release :: "block_hash \<Rightarrow> 'b download_state \<Rightarrow> bool \<times> 'b download_state" where
  "release h d = (h \<in> in_flight d, d\<lparr>in_flight := in_flight d - {h}\<rparr>)"

text \<open>\<open>order\<close> is the iteration order of the inventory.\<close>

definition requeue_unreceived :: "block_hash list \<Rightarrow> 'b download_state \<Rightarrow> 'b download_state" where
  "requeue_unreceived order d =
     (if order = [] then d
      else foldl (\<lambda>d h. d\<lparr>in_flight := in_flight d - {h}, queue := h # queue d\<rparr>) d order)"

definition buffer_block :: "block_hash \<Rightarrow> 'b \<Rightarrow> 'b download_state \<Rightarrow> 'b download_state" where
  "buffer_block prev b d = d\<lparr>buffer := (buffer d)(prev \<mapsto> b)\<rparr>"

definition buffered_hashes :: "('b \<Rightarrow> block_hash) \<Rightarrow> 'b download_state \<Rightarrow> block_hash set" where
  "buffered_hashes hash d = hash ` ran (buffer d)"

definition buffer_head :: "('b \<Rightarrow> block_hash) \<Rightarrow> block_hash list \<Rightarrow> 'b download_state \<Rightarrow> block_hash option" where
  "buffer_head hash order d = List.find (\<lambda>prev. prev \<notin> buffered_hashes hash d) order"

definition remove_buffered :: "block_hash \<Rightarrow> 'b download_state \<Rightarrow> 'b option \<times> 'b download_state" where
  "remove_buffered prev d = (buffer d prev, d\<lparr>buffer := (buffer d)(prev := None)\<rparr>)"

text \<open>\<open>order\<close> is the iteration order of the buffer's keys.\<close>

definition take_connectable ::
    "('b \<Rightarrow> block_hash) \<Rightarrow> block_hash list \<Rightarrow> (block_hash \<Rightarrow> bool) \<Rightarrow> 'b download_state
       \<Rightarrow> 'b option \<times> 'b download_state" where
  "take_connectable hash order is_connected d =
     (case List.find is_connected order of
        Some prev \<Rightarrow> remove_buffered prev d
      | None \<Rightarrow>
          (if queue d \<noteq> [] \<or> in_flight d \<noteq> {} then (None, d)
           else case buffer_head hash order d of
                  None \<Rightarrow> (None, d)
                | Some prev \<Rightarrow> remove_buffered prev d))"

section \<open>Taking blocks\<close>

lemma claim_loop_spec:
  "claim_loop hs fl = (claimed, fl') \<Longrightarrow>
     distinct claimed \<and> set claimed = set hs - fl \<and> fl' = fl \<union> set hs \<and> subseq claimed hs"
proof (induction hs fl arbitrary: claimed rule: claim_loop.induct)
  case (1 fl)
  then show ?case by simp
next
  case (2 h hs fl)
  show ?case
  proof (cases "h \<in> fl")
    case True
    then show ?thesis using 2 by auto
  next
    case False
    obtain c where c: "claim_loop hs (insert h fl) = (c, fl')" "claimed = h # c"
      using 2(3) False by (auto split: prod.splits)
    then show ?thesis using 2(2) [OF False c(1)] False by auto
  qed
qed

lemma pop_loop_claim:
  assumes "pop_loop n batch q fl = (batch', q', fl')" "length batch \<le> n"
  shows "batch' = batch @ take (n - length batch) (fst (claim_loop q fl))
     \<and> (\<exists>popped. q = popped @ q' \<and> fl' = fl \<union> set popped \<and> fl \<union> set batch \<union> set popped = fl \<union> set batch')
     \<and> set batch \<subseteq> set batch' \<and> (length batch' < n \<longrightarrow> q' = [])"
  using assms
proof (induction n batch q fl rule: pop_loop.induct)
  case (1 n batch fl)
  then show ?case by auto
next
  case (2 n batch h q fl)
  show ?case
  proof (cases "length batch < n")
    case False
    then show ?thesis using 2(3,4) by auto
  next
    case less: True
    show ?thesis
    proof (cases "h \<in> fl")
      case True
      then have run: "pop_loop n batch q fl = (batch', q', fl')" "length batch \<le> n"
        using 2(3) less by simp_all
      have *: "batch' = batch @ take (n - length batch) (fst (claim_loop q fl))"
        "\<exists>popped. q = popped @ q' \<and> fl' = fl \<union> set popped \<and> fl \<union> set batch \<union> set popped = fl \<union> set batch'"
        "set batch \<subseteq> set batch'" "length batch' < n \<longrightarrow> q' = []"
        using 2(1) [OF less True run] less by blast+
      then obtain popped where "q = popped @ q'" "fl' = fl \<union> set popped" "fl \<union> set batch \<union> set popped = fl \<union> set batch'"
        by blast
      then have "\<exists>popped. h # q = popped @ q' \<and> fl' = fl \<union> set popped \<and> fl \<union> set batch \<union> set popped = fl \<union> set batch'"
        using True by (intro exI [of _ "h # popped"]) auto
      moreover have "claim_loop (h # q) fl = claim_loop q fl" using True by simp
      ultimately show ?thesis using *(1,3,4) by simp
    next
      case False
      then have run: "pop_loop n (batch @ [h]) q (insert h fl) = (batch', q', fl')" "length (batch @ [h]) \<le> n"
        using 2(3) less by simp_all
      have *: "batch' = (batch @ [h]) @ take (n - length (batch @ [h])) (fst (claim_loop q (insert h fl)))"
        "\<exists>popped. q = popped @ q' \<and> fl' = insert h fl \<union> set popped \<and> insert h fl \<union> set (batch @ [h]) \<union> set popped = insert h fl \<union> set batch'"
        "set (batch @ [h]) \<subseteq> set batch'" "length batch' < n \<longrightarrow> q' = []"
        using 2(2) [OF less False run] by blast+
      then obtain popped where "q = popped @ q'" "fl' = insert h fl \<union> set popped"
        "insert h fl \<union> set (batch @ [h]) \<union> set popped = insert h fl \<union> set batch'" by blast
      then have "\<exists>popped. h # q = popped @ q' \<and> fl' = fl \<union> set popped \<and> fl \<union> set batch \<union> set popped = fl \<union> set batch'"
        using *(3) by (intro exI [of _ "h # popped"]) auto
      moreover have "n - length batch = Suc (n - length (batch @ [h]))" using less by simp
      then have "batch' = batch @ take (n - length batch) (fst (claim_loop (h # q) fl))"
        using *(1) False by (simp split: prod.splits)
      ultimately show ?thesis using *(3,4) by simp
    qed
  qed
qed

lemma pop_batch_claim:
  assumes "pop_batch n d = (batch, d')"
  shows "batch = take n (fst (claim (queue d) d))"
    and "\<exists>popped. queue d = popped @ queue d' \<and> in_flight d' = in_flight d \<union> set popped
           \<and> in_flight d \<union> set popped = in_flight d \<union> set batch"
    and "length batch < n \<Longrightarrow> queue d' = []"
    and "buffer d' = buffer d"
proof -
  obtain q fl where loop: "pop_loop n [] (queue d) (in_flight d) = (batch, q, fl)"
    and d': "d' = d\<lparr>queue := q, in_flight := fl\<rparr>"
    using assms by (auto simp: pop_batch_def split: prod.splits)
  from pop_loop_claim [OF loop] d'
  show "batch = take n (fst (claim (queue d) d))"
    "\<exists>popped. queue d = popped @ queue d' \<and> in_flight d' = in_flight d \<union> set popped
           \<and> in_flight d \<union> set popped = in_flight d \<union> set batch"
    "length batch < n \<Longrightarrow> queue d' = []" "buffer d' = buffer d"
    by (auto simp: claim_def split: prod.splits)
qed

section \<open>The contract with the peers\<close>

text \<open>
  \<open>wanted\<close> are the blocks still to be fetched, \<open>owed\<close> those that some peer has been
  asked for.  Popping and claiming hand blocks out, delivering and giving back return them.
\<close>

locale block_ledger =
  fixes wanted :: "'d \<Rightarrow> 'h set"
    and owed :: "'d \<Rightarrow> 'h set"
    and pop :: "nat \<Rightarrow> 'd \<Rightarrow> 'h list \<times> 'd"
    and take_all :: "'h list \<Rightarrow> 'd \<Rightarrow> 'h list \<times> 'd"
    and give_back :: "'h list \<Rightarrow> 'd \<Rightarrow> 'd"
    and deliver :: "'h \<Rightarrow> 'd \<Rightarrow> bool \<times> 'd"
  assumes owed_wanted: "owed d \<subseteq> wanted d"
    and pop_wanted: "pop n d = (b, d') \<Longrightarrow> wanted d' = wanted d"
    and pop_owed: "pop n d = (b, d') \<Longrightarrow> owed d' = owed d \<union> set b"
    and pop_fresh: "pop n d = (b, d') \<Longrightarrow> distinct b \<and> set b \<inter> owed d = {} \<and> length b \<le> n"
    and take_all_wanted: "take_all hs d = (b, d') \<Longrightarrow> wanted d' = wanted d \<union> set hs"
    and take_all_owed: "take_all hs d = (b, d') \<Longrightarrow> owed d' = owed d \<union> set b"
    and take_all_fresh: "take_all hs d = (b, d') \<Longrightarrow> distinct b \<and> set b = set hs - owed d"
    and give_back_wanted: "wanted (give_back hs d) = wanted d \<union> set hs"
    and give_back_owed: "owed (give_back hs d) = owed d - set hs"
    and deliver_result: "deliver h d = (was, d') \<Longrightarrow> was \<longleftrightarrow> h \<in> owed d"
    and deliver_owed: "deliver h d = (was, d') \<Longrightarrow> owed d' = owed d - {h}"
    and deliver_wanted: "deliver h d = (was, d') \<Longrightarrow> wanted d - {h} \<subseteq> wanted d' \<and> wanted d' \<subseteq> wanted d"
begin

lemma covered_pop: "pop n d = (b, d') \<Longrightarrow> owed d \<subseteq> I \<Longrightarrow> owed d' \<subseteq> I \<union> set b"
  using pop_owed by blast

lemma covered_take_all: "take_all hs d = (b, d') \<Longrightarrow> owed d \<subseteq> I \<Longrightarrow> owed d' \<subseteq> I \<union> set b"
  using take_all_owed by blast

lemma covered_give_back: "owed d \<subseteq> I \<union> set hs \<Longrightarrow> owed (give_back hs d) \<subseteq> I"
  using give_back_owed by blast

lemma covered_deliver: "deliver h d = (was, d') \<Longrightarrow> owed d \<subseteq> I \<union> J \<Longrightarrow> owed d' \<subseteq> I \<union> (J - {h})"
  using deliver_owed by blast

lemma pop_give_back: "pop n d = (b, d') \<Longrightarrow> wanted (give_back b d') = wanted d \<union> set b \<and> owed (give_back b d') = owed d"
  using pop_wanted [of n d b d'] pop_owed [of n d b d'] pop_fresh [of n d b d']
  by (auto simp: give_back_wanted give_back_owed)

text \<open>Batches handed out one after the other share no block.\<close>

lemma pops_disjoint:
  assumes "pop n d = (b, d')" "pop m d' = (b', d'')"
  shows "set b \<inter> set b' = {}"
  using pop_owed [OF assms(1)] pop_fresh [OF assms(2)] by blast

end

definition wanted_blocks :: "'b download_state \<Rightarrow> block_hash set" where
  "wanted_blocks d = set (queue d) \<union> in_flight d"

lemma requeue_fold:
  "foldl (\<lambda>d h. d\<lparr>in_flight := in_flight d - {h}, queue := h # queue d\<rparr>) d order
     = d\<lparr>in_flight := in_flight d - set order, queue := rev order @ queue d\<rparr>"
  by (induction order arbitrary: d) (simp_all add: Diff_insert2 [symmetric])

lemma requeue_unreceived_eq:
  "requeue_unreceived order d = d\<lparr>in_flight := in_flight d - set order, queue := rev order @ queue d\<rparr>"
  by (simp add: requeue_unreceived_def requeue_fold)

lemma set_take_claim: "set (take n (fst (claim hs d))) \<inter> in_flight d = {}"
  using claim_loop_spec [of hs "in_flight d"] in_set_takeD
  by (fastforce simp: claim_def split: prod.splits)

interpretation ledger: block_ledger
  wanted_blocks in_flight pop_batch claim requeue_unreceived release
proof unfold_locales
  fix d :: "'b download_state"
  show "in_flight d \<subseteq> wanted_blocks d" by (simp add: wanted_blocks_def)
next
  fix n and d d' :: "'b download_state" and b
  assume "pop_batch n d = (b, d')"
  note pop = pop_batch_claim [OF this]
  obtain popped where popped: "queue d = popped @ queue d'" "in_flight d' = in_flight d \<union> set popped"
    "in_flight d \<union> set popped = in_flight d \<union> set b" using pop(2) by blast
  obtain claimed fl where claimed: "claim_loop (queue d) (in_flight d) = (claimed, fl)" by fastforce
  then have b: "b = take n claimed" using pop(1) by (simp add: claim_def)
  have spec: "distinct claimed" "set claimed = set (queue d) - in_flight d"
    using claim_loop_spec [OF claimed] by auto
  show fresh: "distinct b \<and> set b \<inter> in_flight d = {} \<and> length b \<le> n"
    using spec b in_set_takeD by fastforce
  show "wanted_blocks d' = wanted_blocks d"
    using popped by (auto simp: wanted_blocks_def)
  show "in_flight d' = in_flight d \<union> set b" using popped by simp
qed (auto simp: requeue_unreceived_eq wanted_blocks_def release_def claim_def dest: claim_loop_spec split: prod.splits)

section \<open>Releasing blocks to the kernel\<close>

definition idle :: "'b download_state \<Rightarrow> bool" where
  "idle d \<longleftrightarrow> queue d = [] \<and> in_flight d = {}"

text \<open>Block hashes chain: some rank grows from every parent to its child.\<close>

definition ranked :: "(block_hash \<Rightarrow> nat) \<Rightarrow> ('b \<Rightarrow> block_hash) \<Rightarrow> 'b download_state \<Rightarrow> bool" where
  "ranked rank hash d \<longleftrightarrow> (\<forall>prev b. buffer d prev = Some b \<longrightarrow> rank prev < rank (hash b))"

lemma find_enumerates:
  assumes "enumerates order A"
  shows "(\<exists>x. List.find P order = Some x \<and> x \<in> A \<and> P x) \<or> (List.find P order = None \<and> (\<forall>x \<in> A. \<not> P x))"
proof (cases "List.find P order")
  case None
  then show ?thesis using assms by (auto simp: find_None_iff enumerates_def)
next
  case (Some x)
  then show ?thesis using assms by (auto simp: find_Some_iff enumerates_def)
qed

lemma take_connectable_cases:
  assumes "enumerates order (dom (buffer d))"
  shows "(\<exists>prev b. take_connectable hash order conn d = (Some b, d\<lparr>buffer := (buffer d)(prev := None)\<rparr>)
            \<and> buffer d prev = Some b
            \<and> (conn prev \<or> (idle d \<and> (\<forall>p \<in> dom (buffer d). \<not> conn p) \<and> prev \<notin> buffered_hashes hash d)))
       \<or> (take_connectable hash order conn d = (None, d) \<and> (\<forall>p \<in> dom (buffer d). \<not> conn p)
            \<and> (idle d \<longrightarrow> dom (buffer d) \<subseteq> buffered_hashes hash d))"
proof (cases "List.find conn order")
  case (Some prev)
  then have "prev \<in> dom (buffer d)" "conn prev"
    using find_enumerates [OF assms, of conn] by auto
  then show ?thesis using Some by (auto simp: take_connectable_def remove_buffered_def)
next
  case None
  then have none: "\<forall>p \<in> dom (buffer d). \<not> conn p"
    using find_enumerates [OF assms, of conn] by auto
  show ?thesis
  proof (cases "idle d")
    case False
    then show ?thesis using None none by (auto simp: take_connectable_def idle_def)
  next
    case True
    then have eq: "take_connectable hash order conn d =
        (case buffer_head hash order d of None \<Rightarrow> (None, d) | Some prev \<Rightarrow> remove_buffered prev d)"
      using None by (simp add: take_connectable_def idle_def)
    show ?thesis
      using find_enumerates [OF assms, of "\<lambda>prev. prev \<notin> buffered_hashes hash d"] True none
      unfolding eq buffer_head_def by (auto simp: remove_buffered_def)
  qed
qed

lemma ranked_has_head:
  assumes "ranked rank hash d" "finite (dom (buffer d))" "buffer d \<noteq> Map.empty"
  shows "\<exists>prev \<in> dom (buffer d). prev \<notin> buffered_hashes hash d"
proof -
  let ?p = "arg_min_on rank (dom (buffer d))"
  have ne: "dom (buffer d) \<noteq> {}" using assms(3) by simp
  have "?p \<in> dom (buffer d)" by (rule arg_min_if_finite(1) [OF assms(2) ne])
  moreover have "?p \<notin> buffered_hashes hash d"
  proof
    assume "?p \<in> buffered_hashes hash d"
    then obtain q b where q: "buffer d q = Some b" "?p = hash b"
      by (auto simp: buffered_hashes_def ran_def)
    then have "rank q < rank ?p" using assms(1) by (auto simp: ranked_def)
    then show False using arg_min_if_finite(2) [OF assms(2) ne] q(1) by (metis domI)
  qed
  ultimately show ?thesis by blast
qed

text \<open>The consumer: take blocks while there are any; each becomes part of the connected chain.\<close>

fun drain ::
    "('b \<Rightarrow> block_hash) \<Rightarrow> ((block_hash \<rightharpoonup> 'b) \<Rightarrow> block_hash list) \<Rightarrow> nat \<Rightarrow> block_hash set \<Rightarrow> 'b download_state
       \<Rightarrow> 'b list \<times> 'b download_state" where
  "drain hash ord 0 C d = ([], d)"
| "drain hash ord (Suc n) C d =
     (case take_connectable hash (ord (buffer d)) (\<lambda>p. p \<in> C) d of
        (None, d) \<Rightarrow> ([], d)
      | (Some b, d) \<Rightarrow> (case drain hash ord n (insert (hash b) C) d of (bs, d) \<Rightarrow> (b # bs, d)))"

definition chain_buffer ::
    "('b \<Rightarrow> block_hash) \<Rightarrow> ('b \<Rightarrow> block_hash) \<Rightarrow> (block_hash \<Rightarrow> nat) \<Rightarrow> block_hash set \<Rightarrow> 'b download_state \<Rightarrow> bool" where
  "chain_buffer hash parent rank C d \<longleftrightarrow>
     idle d \<and> finite (dom (buffer d)) \<and> ranked rank hash d
     \<and> (\<forall>prev b. buffer d prev = Some b \<longrightarrow> parent b = prev)
     \<and> inj_on hash (ran (buffer d)) \<and> buffered_hashes hash d \<inter> C = {}"

lemma chain_buffer_take:
  assumes "chain_buffer hash parent rank C d" "enumerates order (dom (buffer d))" "buffer d \<noteq> Map.empty"
  shows "\<exists>b d'. take_connectable hash order (\<lambda>p. p \<in> C) d = (Some b, d')
     \<and> buffer d (parent b) = Some b \<and> d' = d\<lparr>buffer := (buffer d)(parent b := None)\<rparr>
     \<and> parent b \<notin> buffered_hashes hash d
     \<and> ran (buffer d) = insert b (ran (buffer d')) \<and> b \<notin> ran (buffer d')
     \<and> chain_buffer hash parent rank (insert (hash b) C) d'"
proof -
  have c: "idle d" "finite (dom (buffer d))" "ranked rank hash d"
    "\<And>prev b. buffer d prev = Some b \<Longrightarrow> parent b = prev" "inj_on hash (ran (buffer d))"
    "buffered_hashes hash d \<inter> C = {}"
    using assms(1) by (auto simp: chain_buffer_def)
  obtain prev b where b: "take_connectable hash order (\<lambda>p. p \<in> C) d
      = (Some b, d\<lparr>buffer := (buffer d)(prev := None)\<rparr>)" "buffer d prev = Some b"
    "prev \<in> C \<or> prev \<notin> buffered_hashes hash d"
    using take_connectable_cases [OF assms(2), of hash "\<lambda>p. p \<in> C"]
      ranked_has_head [OF c(3,2) assms(3)] c(1) by blast
  let ?d' = "d\<lparr>buffer := (buffer d)(prev := None)\<rparr>"
  have prev: "parent b = prev" by (rule c(4) [OF b(2)])
  have ran: "ran (buffer d) = insert b (ran (buffer ?d'))"
    using b(2) by (force simp: ran_def)
  have notin: "b \<notin> ran (buffer ?d')"
    using c(4) prev by (auto simp: ran_def split: if_splits)
  have "hash b \<notin> hash ` ran (buffer ?d')"
    using c(5) ran notin by (auto simp: inj_on_def)
  then have disj: "buffered_hashes hash ?d' \<inter> insert (hash b) C = {}"
    using c(6) unfolding buffered_hashes_def ran by auto
  have "inj_on hash (ran (buffer ?d'))"
    by (rule inj_on_subset [OF c(5)]) (use ran in blast)
  then have "chain_buffer hash parent rank (insert (hash b) C) ?d'"
    using c(1-4) disj unfolding chain_buffer_def by (simp add: idle_def ranked_def)
  then show ?thesis
    using b prev ran notin c(6) by blast
qed

lemma drain_chain_buffer:
  assumes "\<And>m. finite (dom m) \<Longrightarrow> enumerates (ord m) (dom m)"
    and "chain_buffer hash parent rank C d" "card (dom (buffer d)) = n"
  shows "\<exists>bs d'. drain hash ord n C d = (bs, d') \<and> buffer d' = Map.empty
     \<and> set bs = ran (buffer d) \<and> distinct bs
     \<and> (\<forall>i j. i \<le> j \<longrightarrow> j < length bs \<longrightarrow> parent (bs ! i) \<noteq> hash (bs ! j))"
  using assms(2,3)
proof (induction n arbitrary: C d)
  case 0
  then show ?case by (auto simp: chain_buffer_def)
next
  case (Suc n)
  have fin: "finite (dom (buffer d))" using Suc.prems(1) by (simp add: chain_buffer_def)
  have "buffer d \<noteq> Map.empty" using Suc.prems(2) by auto
  from chain_buffer_take [OF Suc.prems(1) assms(1) [OF fin] this]
  obtain b d' where b: "take_connectable hash (ord (buffer d)) (\<lambda>p. p \<in> C) d = (Some b, d')"
    "buffer d (parent b) = Some b" "d' = d\<lparr>buffer := (buffer d)(parent b := None)\<rparr>"
    "parent b \<notin> buffered_hashes hash d" "ran (buffer d) = insert b (ran (buffer d'))" "b \<notin> ran (buffer d')"
    "chain_buffer hash parent rank (insert (hash b) C) d'" by blast
  have "dom (buffer d') = dom (buffer d) - {parent b}" "parent b \<in> dom (buffer d)"
    using b(2,3) by auto
  then have "card (dom (buffer d')) = n" using Suc.prems(2) fin by simp
  from Suc.IH [OF b(7) this] obtain bs d'' where bs: "drain hash ord n (insert (hash b) C) d' = (bs, d'')"
    "buffer d'' = Map.empty" "set bs = ran (buffer d')" "distinct bs"
    "\<forall>i j. i \<le> j \<longrightarrow> j < length bs \<longrightarrow> parent (bs ! i) \<noteq> hash (bs ! j)" by blast
  have "parent ((b # bs) ! i) \<noteq> hash ((b # bs) ! j)" if ij: "i \<le> j" "j < length (b # bs)" for i j
  proof (cases i)
    case 0
    have "(b # bs) ! j \<in> insert b (set bs)" using nth_mem [OF ij(2)] by simp
    then have "hash ((b # bs) ! j) \<in> buffered_hashes hash d"
      using b(5) bs(3) by (auto simp: buffered_hashes_def)
    then show ?thesis using b(4) 0 by auto
  next
    case (Suc k)
    then show ?thesis using bs(5) ij by (cases j) auto
  qed
  then show ?case
    using b(1,5,6) bs(1-4) by auto
qed

section \<open>Properties\<close>


text \<open>
  C24: A block is released to the kernel only when its parent is on the active chain, or,
  with nothing queued and nothing in flight, when no buffered block's parent is and the
  block starts a buffered branch.  When nothing is pending and blocks are buffered, one is
  always released.
\<close>

theorem take_connectable_spec:
  assumes "enumerates order (dom (buffer d))" "ranked rank hash d"
  shows "case take_connectable hash order conn d of
       (Some b, d') \<Rightarrow> \<exists>prev. buffer d prev = Some b \<and> d' = d\<lparr>buffer := (buffer d)(prev := None)\<rparr>
         \<and> (conn prev \<or> (idle d \<and> (\<forall>p \<in> dom (buffer d). \<not> conn p) \<and> prev \<notin> buffered_hashes hash d))
     | (None, d') \<Rightarrow> d' = d \<and> (\<forall>p \<in> dom (buffer d). \<not> conn p) \<and> (idle d \<longrightarrow> buffer d = Map.empty)"
proof -
  have "dom (buffer d) \<subseteq> buffered_hashes hash d \<Longrightarrow> buffer d = Map.empty"
    using ranked_has_head [OF assms(2) enumerates_finite [OF assms(1)]] by blast
  then show ?thesis
    using take_connectable_cases [OF assms(1), of hash conn] by (auto split: option.splits)
qed

text \<open>
  C7: Once the peers are idle, draining the buffer ends with the buffer empty after as
  many steps as there were blocks, every block comes out exactly once, and none comes out
  before its parent, in whatever order the blocks arrived and the map iterates.
\<close>

theorem drain_in_chain_order:
  assumes "\<forall>m. finite (dom m) \<longrightarrow> enumerates (ord m) (dom m)"
    and "chain_buffer hash parent rank C d"
  shows "\<exists>bs d'. drain hash ord (card (dom (buffer d))) C d = (bs, d') \<and> buffer d' = Map.empty
     \<and> set bs = ran (buffer d) \<and> distinct bs
     \<and> (\<forall>i j. i \<le> j \<longrightarrow> j < length bs \<longrightarrow> parent (bs ! i) \<noteq> hash (bs ! j))"
  using drain_chain_buffer [OF _ assms(2) refl] assms(1) by blast

section \<open>Witnesses\<close>

text \<open>Blocks as pairs of their hash and their parent's.\<close>

definition demo_download :: "(block_hash \<times> block_hash) download_state" where
  "demo_download = \<lparr>queue = [1, 2, 1, 3], in_flight = {2}, buffer = Map.empty\<rparr>"

definition demo_buffer :: "(block_hash \<times> block_hash) download_state" where
  "demo_buffer = \<lparr>queue = [], in_flight = {}, buffer = [5 \<mapsto> (6, 5), 4 \<mapsto> (5, 4)]\<rparr>"

lemma demo_chain_buffer: "chain_buffer fst snd unat {0} demo_buffer"
  by (auto simp: chain_buffer_def demo_buffer_def idle_def ranked_def inj_on_def buffered_hashes_def
      split: if_splits)

definition demo_order :: "(block_hash \<rightharpoonup> block_hash \<times> block_hash) \<Rightarrow> block_hash list" where
  "demo_order m = sorted_list_of_set (dom m)"

lemma demo_order_enumerates: "\<forall>m. finite (dom m) \<longrightarrow> enumerates (demo_order m) (dom m)"
  by (simp add: demo_order_def enumerates_def)


theorem take_connectable_spec_witness:
  "fst (take_connectable fst [5, 4] (\<lambda>p. False) demo_buffer) = Some (5, 4)"
proof -
  have "enumerates [5, 4] (dom (buffer demo_buffer))" "ranked unat fst demo_buffer"
    by (auto simp: enumerates_def demo_buffer_def ranked_def split: if_splits)
  from take_connectable_spec [OF this, of "\<lambda>p. False"] show ?thesis
    by (auto simp: demo_buffer_def idle_def buffered_hashes_def split: option.splits prod.splits if_splits)
qed

theorem drain_in_chain_order_witness:
  "\<exists>bs d'. drain fst demo_order (card (dom (buffer demo_buffer))) {0} demo_buffer = (bs, d')
     \<and> buffer d' = Map.empty \<and> set bs = {(6, 5), (5, 4)}"
  using drain_in_chain_order [OF demo_order_enumerates demo_chain_buffer]
  by (auto simp: demo_buffer_def)

end
