(* ===== verification/Handshake.thy ===== *)
theory Handshake
  imports Messages
begin

text \<open>
  Version negotiation, p2p/src/handshake.rs: the connection configuration and its
  builders, our version message, \<open>start_handshake\<close> and \<open>negotiate\<close>.  The flag test
  \<open>ServiceFlags::has\<close> and the command name of a message are code of the
  \<open>bitcoin\<close> crate and arguments.  Integer overflow is the value \<open>None\<close>.
\<close>

section \<open>Configuration\<close>

definition wtxid_relay_version :: u32 where "wtxid_relay_version = 70016"
definition sendheaders_version :: u32 where "sendheaders_version = 70012"
definition min_peer_proto_version :: u32 where "min_peer_proto_version = 31800"

datatype network = Bitcoin | Testnet | Testnet4 | Signet | Regtest

record connection_config =
  our_version :: u32
  our_services :: u64
  expected_version :: u32
  expected_services :: u64
  cfg_send_cmpct :: send_cmpct
  cfg_user_agent :: string
  cfg_our_height :: i32
  cfg_fee_filter :: i64
  cfg_network :: network
  cfg_request_addr :: bool

definition config_new :: connection_config where
  "config_new = \<lparr>our_version = wtxid_relay_version, our_services = 0,
     expected_version = wtxid_relay_version, expected_services = 0,
     cfg_send_cmpct = \<lparr>send_compact = False, cmpct_version = 0\<rparr>,
     cfg_user_agent = ''/bitcoin-p2p:0.1.0/'', cfg_our_height = 0, cfg_fee_filter = 0,
     cfg_network = Bitcoin, cfg_request_addr = False\<rparr>"

definition change_network :: "network \<Rightarrow> connection_config \<Rightarrow> connection_config" where
  "change_network n c = c\<lparr>cfg_network := n\<rparr>"

definition request_addr :: "connection_config \<Rightarrow> connection_config" where
  "request_addr c = c\<lparr>cfg_request_addr := True\<rparr>"

definition decrease_version_requirement :: "u32 \<Rightarrow> connection_config \<Rightarrow> connection_config" where
  "decrease_version_requirement v c = c\<lparr>expected_version := v\<rparr>"

definition set_service_requirement :: "u64 \<Rightarrow> connection_config \<Rightarrow> connection_config" where
  "set_service_requirement f c = c\<lparr>expected_services := f\<rparr>"

definition offer_services :: "u64 \<Rightarrow> connection_config \<Rightarrow> connection_config" where
  "offer_services f c = c\<lparr>our_services := f\<rparr>"

definition user_agent :: "string \<Rightarrow> connection_config \<Rightarrow> connection_config" where
  "user_agent a c = c\<lparr>cfg_user_agent := a\<rparr>"

definition set_send_cmpct :: "send_cmpct \<Rightarrow> connection_config \<Rightarrow> connection_config" where
  "set_send_cmpct s c = c\<lparr>cfg_send_cmpct := s\<rparr>"

definition our_height :: "i32 \<Rightarrow> connection_config \<Rightarrow> connection_config" where
  "our_height h c = c\<lparr>cfg_our_height := h\<rparr>"

definition fee_filter :: "i64 \<Rightarrow> connection_config \<Rightarrow> connection_config" where
  "fee_filter f c = c\<lparr>cfg_fee_filter := f\<rparr>"

section \<open>Negotiation\<close>

record feeler_data =
  effective_version :: u32
  fd_services :: u64
  net_time_difference :: i64
  reported_height :: i32
  fd_nonce :: u64

record preferences =
  pref_sendheaders :: bool
  pref_sendaddrv2 :: bool
  pref_sendcmpct :: send_cmpct
  pref_sendwtxid :: bool

definition preferences_new :: preferences where
  "preferences_new = \<lparr>pref_sendheaders = False, pref_sendaddrv2 = False,
     pref_sendcmpct = \<lparr>send_compact = False, cmpct_version = 0\<rparr>, pref_sendwtxid = False\<rparr>"

datatype handshake_error =
    IrrelevantMessage string
  | ConnectionToSelf
  | TooLowVersion u32
  | MissingService u64

record initialized_handshake =
  ih_feeler :: feeler_data
  ih_preferences :: preferences
  ih_fee_filter :: i64
  ih_send_cmpct :: send_cmpct
  ih_request_addr :: bool

record completed_handshake =
  ch_feeler :: feeler_data
  ch_preferences :: preferences

text \<open>The address fields of the version message are fixed and left out.\<close>

definition build_our_version :: "connection_config \<Rightarrow> duration \<Rightarrow> u64 \<Rightarrow> version_message" where
  "build_our_version c unix_time nonce =
     \<lparr>vm_version = our_version c, vm_services = our_services c,
      vm_timestamp = word_of_nat (as_secs unix_time), vm_nonce = nonce,
      vm_user_agent = cfg_user_agent c, vm_start_height = cfg_our_height c, vm_relay = False\<rparr>"

definition checked_sub_i64 :: "i64 \<Rightarrow> i64 \<Rightarrow> i64 option" where
  "checked_sub_i64 a b =
     (let d = sint a - sint b
      in if - (2 ^ 63) \<le> d \<and> d < 2 ^ 63 then Some (word_of_int d) else None)"

text \<open>
  \<open>unix_secs\<close> is the value of \<open>unix_time.as_secs_f64() as i64\<close>.  The outer
  \<open>None\<close> is the overflow of the time difference.
\<close>

definition start_handshake ::
    "(u64 \<Rightarrow> u64 \<Rightarrow> bool) \<Rightarrow> ('tx network_message \<Rightarrow> string) \<Rightarrow> connection_config \<Rightarrow> i64
       \<Rightarrow> 'tx network_message \<Rightarrow> u64
       \<Rightarrow> (handshake_error + (initialized_handshake \<times> 'tx network_message list)) option" where
  "start_handshake has command c unix_secs msg nonce =
     (case msg of
        Version v \<Rightarrow>
          if vm_nonce v = nonce then Some (Inl ConnectionToSelf)
          else if vm_version v < expected_version c \<or> vm_version v < min_peer_proto_version
            then Some (Inl (TooLowVersion (vm_version v)))
          else if \<not> has (vm_services v) (expected_services c)
            then Some (Inl (MissingService (vm_services v)))
          else
            (let eff = min (our_version c) (vm_version v);
                 suggested = (if wtxid_relay_version \<le> eff then [WtxidRelay] else [])
                   @ (if 70016 \<le> eff then [SendAddrV2] else [])
                   @ (if sendheaders_version \<le> eff then [SendHeaders] else [])
             in map_option (\<lambda>diff.
                  Inr (\<lparr>ih_feeler = \<lparr>effective_version = eff, fd_services = vm_services v,
                          net_time_difference = diff, reported_height = vm_start_height v,
                          fd_nonce = nonce\<rparr>,
                        ih_preferences = preferences_new, ih_fee_filter = cfg_fee_filter c,
                        ih_send_cmpct = cfg_send_cmpct c, ih_request_addr = cfg_request_addr c\<rparr>,
                       suggested))
                  (checked_sub_i64 unix_secs (vm_timestamp v)))
      | m \<Rightarrow> Some (Inl (IrrelevantMessage (command m))))"

definition negotiate ::
    "('tx network_message \<Rightarrow> string) \<Rightarrow> initialized_handshake \<Rightarrow> 'tx network_message
       \<Rightarrow> handshake_error + (initialized_handshake \<times> (completed_handshake \<times> 'tx network_message list) option)" where
  "negotiate command h msg =
     (case msg of
        Verack \<Rightarrow>
          Inr (h, Some (\<lparr>ch_feeler = ih_feeler h, ch_preferences = ih_preferences h\<rparr>,
            [Verack, SendCmpct (ih_send_cmpct h), FeeFilter (ih_fee_filter h)]
              @ (if ih_request_addr h then [GetAddr] else [])))
      | WtxidRelay \<Rightarrow> Inr (h\<lparr>ih_preferences := (ih_preferences h)\<lparr>pref_sendwtxid := True\<rparr>\<rparr>, None)
      | SendAddrV2 \<Rightarrow> Inr (h\<lparr>ih_preferences := (ih_preferences h)\<lparr>pref_sendaddrv2 := True\<rparr>\<rparr>, None)
      | SendCmpct cmpct \<Rightarrow> Inr (h\<lparr>ih_preferences := (ih_preferences h)\<lparr>pref_sendcmpct := cmpct\<rparr>\<rparr>, None)
      | SendHeaders \<Rightarrow> Inr (h\<lparr>ih_preferences := (ih_preferences h)\<lparr>pref_sendheaders := True\<rparr>\<rparr>, None)
      | e \<Rightarrow> Inl (IrrelevantMessage (command e)))"

section \<open>What a negotiation records\<close>

definition negotiable :: "'tx network_message \<Rightarrow> bool" where
  "negotiable m = (case m of WtxidRelay \<Rightarrow> True | SendAddrV2 \<Rightarrow> True | SendHeaders \<Rightarrow> True
     | SendCmpct _ \<Rightarrow> True | _ \<Rightarrow> False)"

text \<open>The preferences that a list of announcements amounts to, whatever their order.\<close>

definition cmpct_of :: "'tx network_message \<Rightarrow> send_cmpct option" where
  "cmpct_of m = (case m of SendCmpct c \<Rightarrow> Some c | _ \<Rightarrow> None)"

definition announced :: "preferences \<Rightarrow> 'tx network_message list \<Rightarrow> preferences" where
  "announced p ms =
     \<lparr>pref_sendheaders = (pref_sendheaders p \<or> SendHeaders \<in> set ms),
      pref_sendaddrv2 = (pref_sendaddrv2 p \<or> SendAddrV2 \<in> set ms),
      pref_sendcmpct = last (pref_sendcmpct p # List.map_filter cmpct_of ms),
      pref_sendwtxid = (pref_sendwtxid p \<or> WtxidRelay \<in> set ms)\<rparr>"

lemma announced_Nil [simp]: "announced p [] = p"
  by (simp add: announced_def)

lemma negotiate_announcement:
  assumes "negotiable m"
  shows "negotiate command h m = Inr (h\<lparr>ih_preferences := announced (ih_preferences h) [m]\<rparr>, None)"
  using assms
  by (cases m) (simp_all add: negotiable_def negotiate_def announced_def cmpct_of_def List.map_filter_def)

lemma announced_Cons: "announced (announced p [m]) ms = announced p (m # ms)"
  by (cases m) (auto simp: announced_def cmpct_of_def List.map_filter_def)

lemma negotiate_Verack:
  "negotiate command h Verack = Inr (h, Some (\<lparr>ch_feeler = ih_feeler h, ch_preferences = ih_preferences h\<rparr>,
     [Verack, SendCmpct (ih_send_cmpct h), FeeFilter (ih_fee_filter h)]
       @ (if ih_request_addr h then [GetAddr] else [])))"
  by (simp add: negotiate_def)

lemma negotiate_refuses:
  "\<not> negotiable m \<Longrightarrow> m \<noteq> Verack \<Longrightarrow> negotiate command h m = Inl (IrrelevantMessage (command m))"
  by (cases m) (simp_all add: negotiable_def negotiate_def)

lemma checked_sub_i64_Some:
  assumes "- (2 ^ 63) \<le> sint a - sint b" "sint a - sint b < 2 ^ 63"
  shows "checked_sub_i64 a b = Some (word_of_int (sint a - sint b))"
    and "sint (word_of_int (sint a - sint b) :: i64) = sint a - sint b"
proof -
  have "sint (word_of_int k :: i64) = k" if "- (2 ^ 63) \<le> k" "k < 2 ^ 63" for k
    using that by (simp add: signed_of_int signed_take_bit_int_eq_self)
  then show "sint (word_of_int (sint a - sint b) :: i64) = sint a - sint b"
    using assms by blast
  show "checked_sub_i64 a b = Some (word_of_int (sint a - sint b))"
    using assms by (simp add: checked_sub_i64_def)
qed

lemma checked_sub_i64_overflow:
  "0 < sint a \<Longrightarrow> sint b = - (2 ^ 63) \<Longrightarrow> checked_sub_i64 a b = None"
  by (simp add: checked_sub_i64_def)

section \<open>Properties\<close>

text \<open>
  \<open>start_handshake\<close> accepts a message exactly when it is a version message that
  is not our own, of a version that both the configuration and the protocol minimum
  admit, with every required service; it then records the lower of the two versions as the
  effective one and the true difference of the clocks, and offers wtxid relay and addrv2
  from version 70016 and sendheaders from version 70012 on.  The clock difference must fit
  in 64 bits.
\<close>

lemma start_handshake_accepts:
  assumes "- (2 ^ 63) \<le> sint unix_secs - sint (vm_timestamp v)"
    and "sint unix_secs - sint (vm_timestamp v) < 2 ^ 63"
  shows "if vm_nonce v \<noteq> nonce \<and> expected_version c \<le> vm_version v \<and> 31800 \<le> vm_version v
            \<and> has (vm_services v) (expected_services c)
     then \<exists>h ms. start_handshake has cmd c unix_secs (Version v) nonce = Some (Inr (h, ms))
       \<and> effective_version (ih_feeler h) = min (our_version c) (vm_version v)
       \<and> sint (net_time_difference (ih_feeler h)) = sint unix_secs - sint (vm_timestamp v)
       \<and> (WtxidRelay \<in> set ms \<longleftrightarrow> 70016 \<le> our_version c \<and> 70016 \<le> vm_version v)
       \<and> (SendAddrV2 \<in> set ms \<longleftrightarrow> 70016 \<le> our_version c \<and> 70016 \<le> vm_version v)
       \<and> (SendHeaders \<in> set ms \<longleftrightarrow> 70012 \<le> our_version c \<and> 70012 \<le> vm_version v)
       \<and> ih_preferences h = preferences_new
     else \<exists>e. start_handshake has cmd c unix_secs (Version v) nonce = Some (Inl e)"
proof (cases "vm_nonce v \<noteq> nonce \<and> expected_version c \<le> vm_version v \<and> 31800 \<le> vm_version v
            \<and> has (vm_services v) (expected_services c)")
  case True
  then show ?thesis
    using checked_sub_i64_Some [OF assms]
    by (auto simp: start_handshake_def Let_def min_peer_proto_version_def wtxid_relay_version_def
        sendheaders_version_def not_less)
next
  case False
  then show ?thesis
    by (auto simp: start_handshake_def min_peer_proto_version_def not_le)
qed


section \<open>Witnesses\<close>

definition demo_version :: version_message where
  "demo_version = \<lparr>vm_version = 70016, vm_services = 9, vm_timestamp = 1700000000, vm_nonce = 5,
     vm_user_agent = [], vm_start_height = 800000, vm_relay = True\<rparr>"

definition demo_has :: "u64 \<Rightarrow> u64 \<Rightarrow> bool" where
  "demo_has mine required \<longleftrightarrow> or mine required = mine"

definition demo_command :: "'tx network_message \<Rightarrow> string" where
  "demo_command m = ''message''"


end
