(* ===== verification/Socks5.thy ===== *)
theory Socks5
  imports Prelude
begin

unbundle bit_operations_syntax

text \<open>
  The SOCKS5 client and the onion service names of src/net/socks5.rs: the base-32
  encoder with its bit buffer, the service name of an ed25519 key, the three kinds of
  destination, and the whole of \<open>Socks5Proxy::connect\<close> over a byte stream.  The hash
  \<open>sha3_256\<close> is code of another crate and an argument.  The encoder is shown equal to
  the base-32 digits of the input read as a number; a successful connect is characterised
  by the bytes exchanged.
\<close>

section \<open>Base 32\<close>

text \<open>\<open>abcdefghijklmnopqrstuvwxyz234567\<close> as bytes.\<close>

definition alphabet :: "u8 list" where
  "alphabet = map word_of_nat ([97..<123] @ [50..<56])"

text \<open>\<open>out[i] = v; i += 1\<close>: an index past the array is a panic, \<open>None\<close>.\<close>

definition put :: "u8 list \<Rightarrow> nat \<Rightarrow> u8 \<Rightarrow> (u8 list \<times> nat) option" where
  "put out i v = (if i < length out then Some (out[i := v], i + 1) else None)"

function b32_emit :: "u64 \<Rightarrow> nat \<Rightarrow> u8 list \<Rightarrow> nat \<Rightarrow> (nat \<times> u8 list \<times> nat) option" where
  "b32_emit buffer bits_left out i =
     (if 5 \<le> bits_left then
        (case put out i (alphabet ! unat (drop_bit (bits_left - 5) buffer AND 0x1f)) of
           None \<Rightarrow> None
         | Some (out, i) \<Rightarrow> b32_emit buffer (bits_left - 5) out i)
      else Some (bits_left, out, i))"
  by pat_completeness auto
termination
  by (relation "measure (\<lambda>(buffer, bits_left, out, i). bits_left)") auto

declare b32_emit.simps [simp del]

fun b32_bytes :: "u8 list \<Rightarrow> u64 \<Rightarrow> nat \<Rightarrow> u8 list \<Rightarrow> nat \<Rightarrow> u8 list option" where
  "b32_bytes [] buffer bits_left out i = Some out"
| "b32_bytes (byte # data) buffer bits_left out i =
     (let buffer = push_bit 8 buffer OR ucast byte in
      case b32_emit buffer (bits_left + 8) out i of
        None \<Rightarrow> None
      | Some (bits_left, out, i) \<Rightarrow> b32_bytes data buffer bits_left out i)"

definition base32_encode_35 :: "u8 list \<Rightarrow> u8 list option" where
  "base32_encode_35 data = b32_bytes data 0 0 (replicate 56 0) 0"

section \<open>Service names and destinations\<close>

definition salt :: "u8 list" where
  "salt = map (word_of_nat \<circ> of_char) ''.onion checksum''"

definition onion_suffix :: "u8 list" where
  "onion_suffix = map (word_of_nat \<circ> of_char) ''.onion''"

definition tor_version :: u8 where
  "tor_version = 3"

definition pubkey_to_service :: "(u8 list \<Rightarrow> u8 list) \<Rightarrow> u8 list \<Rightarrow> u8 list option" where
  "pubkey_to_service sha3_256 ed25519 =
     (let cs = sha3_256 (salt @ ed25519 @ [tor_version]);
          payload = ed25519 @ [cs ! 0, cs ! 1, tor_version]
      in map_option (\<lambda>encoded. encoded @ onion_suffix) (base32_encode_35 payload))"

datatype socks_destination = OnionAddress "u8 list" | SocksIpv4 "u8 list" | SocksIpv6 "u8 list"

definition type_byte :: "socks_destination \<Rightarrow> u8" where
  "type_byte d = (case d of OnionAddress _ \<Rightarrow> 3 | SocksIpv4 _ \<Rightarrow> 1 | SocksIpv6 _ \<Rightarrow> 4)"

definition encode_dest :: "(u8 list \<Rightarrow> u8 list) \<Rightarrow> socks_destination \<Rightarrow> u8 list option" where
  "encode_dest sha3_256 d =
     (case d of
        OnionAddress key \<Rightarrow> map_option (\<lambda>service. 62 # service) (pubkey_to_service sha3_256 key)
      | SocksIpv4 octets \<Rightarrow> Some octets
      | SocksIpv6 octets \<Rightarrow> Some octets)"

section \<open>The proxy handshake\<close>

text \<open>
  A TCP stream: the bytes the other side will deliver, what a read reports when they run
  out, the bytes written, after how many bytes a write fails, and the two timeouts.
\<close>

record tcp_stream =
  incoming :: "u8 list"
  read_failure :: io_error
  outgoing :: "u8 list"
  write_failure :: "(nat \<times> io_error) option"
  read_timeout :: "duration option"
  write_timeout :: "duration option"

definition tcp_write_all :: "u8 list \<Rightarrow> tcp_stream \<Rightarrow> io_error + tcp_stream" where
  "tcp_write_all bs s =
     (case write_failure s of
        Some (n, e) \<Rightarrow> (if length (outgoing s) + length bs \<le> n
                       then Inr (s\<lparr>outgoing := outgoing s @ bs\<rparr>) else Inl e)
      | None \<Rightarrow> Inr (s\<lparr>outgoing := outgoing s @ bs\<rparr>))"

definition tcp_read_exact :: "nat \<Rightarrow> tcp_stream \<Rightarrow> io_error + (u8 list \<times> tcp_stream)" where
  "tcp_read_exact n s =
     (case read_exact n (incoming s) of
        Inr (bs, rest) \<Rightarrow> Inr (bs, s\<lparr>incoming := rest\<rparr>)
      | Inl _ \<Rightarrow> Inl (read_failure s))"

text \<open>Setting a timeout of zero is an error of the standard library.\<close>

definition set_read_timeout :: "duration option \<Rightarrow> tcp_stream \<Rightarrow> io_error + tcp_stream" where
  "set_read_timeout d s =
     (if d = Some 0 then Inl (OtherError ''cannot set a 0 duration timeout'')
      else Inr (s\<lparr>read_timeout := d\<rparr>))"

definition set_write_timeout :: "duration option \<Rightarrow> tcp_stream \<Rightarrow> io_error + tcp_stream" where
  "set_write_timeout d s =
     (if d = Some 0 then Inl (OtherError ''cannot set a 0 duration timeout'')
      else Inr (s\<lparr>write_timeout := d\<rparr>))"

definition tor_bootstrap_timeout :: duration where
  "tor_bootstrap_timeout = from_secs 15"

definition skip_bound_address :: "u8 \<Rightarrow> tcp_stream \<Rightarrow> io_error + tcp_stream" where
  "skip_bound_address atyp s =
     (if atyp = 1 then rbind (tcp_read_exact 6 s) (\<lambda>(_, s). Inr s)
      else if atyp = 4 then rbind (tcp_read_exact 18 s) (\<lambda>(_, s). Inr s)
      else if atyp = 3 then
        rbind (tcp_read_exact 1 s) (\<lambda>(len, s).
        rbind (tcp_read_exact (unat (from_le_bytes len :: u8) + 2) s) (\<lambda>(_, s). Inr s))
      else Inl (OtherError ''response failure''))"

text \<open>\<open>dial\<close> is the outcome of \<open>TcpStream::connect_timeout\<close> to the proxy.\<close>

definition connect_dest ::
    "io_error + tcp_stream \<Rightarrow> u8 \<Rightarrow> u8 list \<Rightarrow> u16 \<Rightarrow> duration \<Rightarrow> io_error + tcp_stream" where
  "connect_dest dial tbyte dest_bytes port read_tmo =
     rbind dial (\<lambda>s.
     rbind (set_read_timeout (Some tor_bootstrap_timeout) s) (\<lambda>s.
     rbind (set_write_timeout (Some tor_bootstrap_timeout) s) (\<lambda>s.
     rbind (tcp_write_all [5, 1, 0] s) (\<lambda>s.
     rbind (tcp_read_exact 2 s) (\<lambda>(resp, s).
     rbind (check (resp ! 0 = 5) (OtherError ''unsupported socks protocol version'')) (\<lambda>_.
     rbind (check (resp ! 1 = 0) (OtherError ''socks proxy requires authentication'')) (\<lambda>_.
     rbind (tcp_write_all [5, 1, 0, tbyte] s) (\<lambda>s.
     rbind (tcp_write_all dest_bytes s) (\<lambda>s.
     rbind (tcp_write_all (to_be_bytes port) s) (\<lambda>s.
     rbind (tcp_read_exact 4 s) (\<lambda>(resp, s).
     rbind (check (resp ! 0 = 5) (OtherError ''unsupported socks protocol version'')) (\<lambda>_.
     rbind (check (resp ! 1 = 0) (OtherError ''response failure'')) (\<lambda>_.
     rbind (skip_bound_address (resp ! 3) s) (\<lambda>s.
     rbind (set_read_timeout (Some read_tmo) s) (\<lambda>s.
       set_write_timeout None s)))))))))))))))"

definition socks_connect ::
    "(u8 list \<Rightarrow> u8 list) \<Rightarrow> io_error + tcp_stream \<Rightarrow> socks_destination \<Rightarrow> u16 \<Rightarrow> duration
       \<Rightarrow> (io_error + tcp_stream) option" where
  "socks_connect sha3_256 dial d port read_tmo =
     map_option (\<lambda>dest_bytes. connect_dest dial (type_byte d) dest_bytes port read_tmo)
       (encode_dest sha3_256 d)"

section \<open>The encoder computes base-32 digits\<close>

definition be_val :: "u8 list \<Rightarrow> nat" where
  "be_val bs = le_val (rev bs)"

text \<open>The \<open>j\<close>-th most significant base-32 digit of a number of \<open>m\<close> digits.\<close>

definition digit32 :: "nat \<Rightarrow> nat \<Rightarrow> nat \<Rightarrow> nat" where
  "digit32 m n j = (n div 32 ^ (m - 1 - j)) mod 32"

definition base32_ref :: "u8 list \<Rightarrow> u8 list" where
  "base32_ref data = map (\<lambda>j. alphabet ! digit32 56 (be_val data) j) [0..<56]"

lemma le_val_append: "le_val (xs @ ys) = le_val xs + 256 ^ length xs * le_val ys"
  by (induction xs) (simp_all add: algebra_simps)

lemma be_val_snoc: "be_val (xs @ [b]) = 256 * be_val xs + unat b"
  by (simp add: be_val_def)

lemma be_val_append: "be_val (xs @ ys) = be_val xs * 256 ^ length ys + be_val ys"
  by (simp add: be_val_def le_val_append)

lemma be_val_bound: "be_val bs < 256 ^ length bs"
  using le_val_bound [of "rev bs"] by (simp add: be_val_def)

lemma be_val_inject: "length xs = length ys \<Longrightarrow> be_val xs = be_val ys \<Longrightarrow> xs = ys"
  by (metis be_val_def le_bytes_le_val length_rev rev_rev_ident)

lemma shift_in:
  "unat ((push_bit 8 buffer :: u64) OR ucast (byte :: u8)) = (256 * unat buffer + unat byte) mod 2 ^ 64"
proof -
  have "push_bit 8 buffer + ucast byte = push_bit 8 buffer OR (ucast byte :: u64)"
    by (rule disjunctive_add) (auto simp: bit_simps dest: bit_imp_le_length)
  then have "push_bit 8 buffer OR (ucast byte :: u64) = 256 * buffer + ucast byte"
    by (simp add: push_bit_eq_mult mult.commute)
  moreover have "unat (256 * buffer + ucast byte :: u64) = (256 * unat buffer + unat byte) mod 2 ^ 64"
    by (simp add: unat_word_ariths unsigned_ucast_eq take_bit_eq_mod mod_simps)
  ultimately show ?thesis by simp
qed

lemma shift_out: "unat (drop_bit k (buffer :: u64) AND 0x1f) = (unat buffer div 2 ^ k) mod 32"
proof -
  have "drop_bit k buffer AND 0x1f = take_bit 5 (drop_bit k buffer)"
    by (simp add: take_bit_eq_mask mask_eq_exp_minus_1)
  moreover have "take_bit 64 (unat buffer) = unat buffer"
    using unsigned_less [of buffer, where 'a = nat] by (simp add: take_bit_nat_eq_self_iff)
  then have "unat (take_bit 5 (drop_bit k buffer)) = take_bit 5 (drop_bit k (unat buffer))"
    by (simp add: unsigned_take_bit_eq unsigned_drop_bit_eq)
  ultimately show ?thesis
    by (simp add: take_bit_eq_mod drop_bit_eq_div)
qed

lemma window: "s + 5 \<le> 64 \<Longrightarrow> ((v :: nat) mod 2 ^ 64 div 2 ^ s) mod 32 = (v div 2 ^ s) mod 32"
proof -
  assume "s + 5 \<le> 64"
  then have "take_bit 5 (drop_bit s (take_bit 64 v)) = take_bit 5 (drop_bit s v)"
    by (intro bit_eqI) (auto simp: bit_simps)
  then show ?thesis by (simp add: take_bit_eq_mod drop_bit_eq_div)
qed

definition b32_out :: "nat \<Rightarrow> nat \<Rightarrow> u8 list" where
  "b32_out n i = map (\<lambda>j. alphabet ! digit32 56 n j) [0..<i] @ replicate (56 - i) 0"

lemma put_b32_out:
  "i < 56 \<Longrightarrow> put (b32_out n i) i (alphabet ! digit32 56 n i) = Some (b32_out n (Suc i), Suc i)"
proof -
  assume i: "i < 56"
  then have "replicate (56 - i) (0 :: u8) = 0 # replicate (56 - Suc i) 0"
    by (metis Suc_diff_Suc replicate_Suc)
  then show ?thesis
    using i by (simp add: put_def b32_out_def list_update_append)
qed

lemma b32_emit_digits:
  assumes "\<And>j. i \<le> j \<Longrightarrow> 5 * (j - i + 1) \<le> bits \<Longrightarrow>
             (unat buffer div 2 ^ (bits - 5 * (j - i + 1))) mod 32 = digit32 56 n j"
    and "i + bits div 5 \<le> 56"
  shows "b32_emit buffer bits (b32_out n i) i
       = Some (bits mod 5, b32_out n (i + bits div 5), i + bits div 5)"
  using assms
proof (induction bits arbitrary: i rule: less_induct)
  case (less bits)
  show ?case
  proof (cases "5 \<le> bits")
    case False
    then show ?thesis by (simp add: b32_emit.simps)
  next
    case True
    have i: "i < 56" using less.prems(2) True by (simp add: div_greater_zero_iff)
    have d: "bits div 5 = Suc ((bits - 5) div 5)" "(bits - 5) mod 5 = bits mod 5"
      using True by (simp_all add: le_div_geq le_mod_geq)
    have digit: "unat (drop_bit (bits - 5) buffer AND 0x1f) = digit32 56 n i"
      using less.prems(1) [of i] True by (simp add: shift_out)
    have "b32_emit buffer (bits - 5) (b32_out n (Suc i)) (Suc i)
        = Some ((bits - 5) mod 5, b32_out n (Suc i + (bits - 5) div 5), Suc i + (bits - 5) div 5)"
    proof (rule less.IH)
      show "(unat buffer div 2 ^ (bits - 5 - 5 * (j - Suc i + 1))) mod 32 = digit32 56 n j"
        if "Suc i \<le> j" "5 * (j - Suc i + 1) \<le> bits - 5" for j
      proof -
        have "bits - 5 - 5 * (j - Suc i + 1) = bits - 5 * (j - i + 1)" "5 * (j - i + 1) \<le> bits"
          using that True by auto
        then show ?thesis using less.prems(1) [of j] that by simp
      qed
    qed (use True less.prems(2) d in auto)
    then show ?thesis
      using True i d by (subst b32_emit.simps) (simp add: digit put_b32_out)
  qed
qed

lemma div_carry: "(x :: nat) div 5 + (x mod 5 + y) div 5 = (x + y) div 5"
proof -
  have "x + y = (x mod 5 + y) + 5 * (x div 5)" by simp
  then have "(x + y) div 5 = ((x mod 5 + y) + 5 * (x div 5)) div 5" by (rule arg_cong)
  then show ?thesis by (simp only: div_mult_self2)
qed

lemma b32_bytes_digits:
  assumes "length pre + length data = 35" "n = be_val (pre @ data)"
    and "unat buffer = be_val pre mod 2 ^ 64"
  shows "b32_bytes data buffer (8 * length pre mod 5) (b32_out n (8 * length pre div 5)) (8 * length pre div 5)
       = Some (b32_out n 56)"
  using assms
proof (induction data arbitrary: pre buffer)
  case Nil
  then show ?case by simp
next
  case (Cons b data)
  let ?k = "length pre"
  let ?i = "8 * ?k div 5" and ?bits = "8 * ?k mod 5 + 8"
  let ?v = "be_val (pre @ [b])"
  let ?buf = "push_bit 8 buffer OR ucast b :: u64"
  have buf: "unat ?buf = ?v mod 2 ^ 64"
    unfolding shift_in Cons.prems(3) be_val_snoc by (metis mod_add_left_eq mod_mult_right_eq)
  have v: "?v = n div 2 ^ (8 * length data)"
  proof -
    have "n = ?v * 256 ^ length data + be_val data"
      using Cons.prems(2) be_val_append [of "pre @ [b]" data] by simp
    then have "n div 256 ^ length data = ?v"
      using be_val_bound [of data] by simp
    moreover have "(256 :: nat) ^ length data = 2 ^ (8 * length data)"
      by (simp add: power_mult)
    ultimately show ?thesis by simp
  qed
  have split: "5 * ?i + 8 * ?k mod 5 = 8 * ?k" by simp
  have emit: "b32_emit ?buf ?bits (b32_out n ?i) ?i
      = Some (?bits mod 5, b32_out n (?i + ?bits div 5), ?i + ?bits div 5)"
  proof (rule b32_emit_digits)
    fix j
    assume j: "?i \<le> j" "5 * (j - ?i + 1) \<le> ?bits"
    let ?s = "?bits - 5 * (j - ?i + 1)"
    have "8 * ?k mod 5 < 5" by simp
    then have s: "?s + 5 \<le> 64" by linarith
    obtain d where d: "j = ?i + d" using j(1) le_Suc_ex by blast
    then have five: "5 * (j - ?i + 1) = 5 * d + 5" by simp
    have le: "5 * d + 5 \<le> ?bits" using j(2) unfolding five .
    have s_eq: "?s = ?bits - (5 * d + 5)" unfolding five ..
    have "5 * j + 5 \<le> 8 * ?k + 8" using le split d by linarith
    moreover have "?s = 8 * ?k + 8 - (5 * j + 5)" unfolding s_eq using le split d by linarith
    ultimately have e: "8 * length data + ?s = 5 * (55 - j)"
      using Cons.prems(1) by (simp add: diff_mult_distrib2)
    have "unat ?buf div 2 ^ ?s mod 32 = n div 2 ^ (8 * length data) div 2 ^ ?s mod 32"
      unfolding buf window [OF s] v ..
    also have "\<dots> = n div 2 ^ (5 * (55 - j)) mod 32"
      by (simp only: div_mult2_eq [symmetric] power_add [symmetric] e)
    also have "\<dots> = digit32 56 n j"
      by (simp add: digit32_def power_mult)
    finally show "unat ?buf div 2 ^ ?s mod 32 = digit32 56 n j" .
  next
    show "?i + ?bits div 5 \<le> 56" using Cons.prems(1) by simp
  qed
  have next_bits: "?bits mod 5 = 8 * length (pre @ [b]) mod 5" by (simp add: mod_simps add.commute)
  have next_i: "?i + ?bits div 5 = 8 * length (pre @ [b]) div 5"
    using div_carry [of "8 * ?k" 8] by (simp add: add.commute)
  have "b32_bytes data ?buf (8 * length (pre @ [b]) mod 5)
      (b32_out n (8 * length (pre @ [b]) div 5)) (8 * length (pre @ [b]) div 5) = Some (b32_out n 56)"
    using Cons.prems buf by (intro Cons.IH) simp_all
  then show ?case
    using emit unfolding next_bits next_i by (simp add: Let_def)
qed

lemma base32_encode_35_ref: "length data = 35 \<Longrightarrow> base32_encode_35 data = Some (base32_ref data)"
  using b32_bytes_digits [of "[]" data "be_val data" 0]
  by (simp add: base32_encode_35_def base32_ref_def b32_out_def be_val_def)

lemma length_base32_ref [simp]: "length (base32_ref data) = 56"
  by (simp add: base32_ref_def)

lemma length_alphabet [simp]: "length alphabet = 32"
  by (simp add: alphabet_def)

lemma alphabet_list:
  "alphabet = [97, 98, 99, 100, 101, 102, 103, 104, 105, 106, 107, 108, 109, 110, 111, 112, 113, 114,
     115, 116, 117, 118, 119, 120, 121, 122, 50, 51, 52, 53, 54, 55]"
  by (simp add: alphabet_def upt_rec)

lemma distinct_alphabet: "distinct alphabet"
  by (simp add: alphabet_def upt_rec)

lemma digits32_inject:
  assumes "a < 32 ^ m" "b < 32 ^ m" "\<And>j. j < m \<Longrightarrow> digit32 m a j = digit32 m b j"
  shows "a = b"
  using assms
proof (induction m arbitrary: a b)
  case 0
  then show ?case by simp
next
  case (Suc m)
  have low: "a mod 32 = b mod 32"
    using Suc.prems(3) [of m] by (simp add: digit32_def)
  have "a div 32 = b div 32"
  proof (rule Suc.IH)
    show "digit32 m (a div 32) j = digit32 m (b div 32) j" if "j < m" for j
    proof -
      have "Suc (m - 1 - j) = m - j" using that by simp
      then have "digit32 m (x div 32) j = digit32 (Suc m) x j" for x
        by (simp add: digit32_def div_mult2_eq [symmetric] flip: power_Suc)
      then show ?thesis using Suc.prems(3) [of j] that by simp
    qed
  qed (use Suc.prems in \<open>auto simp: div_less_iff_less_mult mult.commute\<close>)
  with low show ?case by (metis div_mult_mod_eq)
qed

lemma base32_ref_inject:
  assumes "length xs = 35" "length ys = 35" "base32_ref xs = base32_ref ys"
  shows "xs = ys"
proof (rule be_val_inject)
  have bound: "be_val zs < 32 ^ 56" if "length zs = 35" for zs
    using be_val_bound [of zs] that by simp
  show "be_val xs = be_val ys"
  proof (rule digits32_inject [where m = 56])
    fix j :: nat
    assume "j < 56"
    then have "alphabet ! digit32 56 (be_val xs) j = alphabet ! digit32 56 (be_val ys) j"
      using assms(3) by (simp add: base32_ref_def)
    then show "digit32 56 (be_val xs) j = digit32 56 (be_val ys) j"
      by (simp add: nth_eq_iff_index_eq [OF distinct_alphabet] digit32_def)
  qed (use bound assms in auto)
qed (use assms in simp)

section \<open>The contract of a destination\<close>

text \<open>
  RFC 1928: the address that follows a type byte is 4 bytes, 16 bytes, or a length byte
  and that many bytes.  A destination promises an encoding that such a reader delimits.
\<close>

definition address_length :: "u8 \<Rightarrow> u8 list \<Rightarrow> nat option" where
  "address_length tbyte bs =
     (if tbyte = 1 then Some 4 else if tbyte = 4 then Some 16
      else if tbyte = 3 then (case bs of [] \<Rightarrow> None | n # _ \<Rightarrow> Some (Suc (unat n))) else None)"

definition parse_request :: "u8 list \<Rightarrow> (u8 \<times> u8 list \<times> u16 \<times> u8 list) option" where
  "parse_request bs =
     (case bs of
        v # c # r # tbyte # rest \<Rightarrow>
          (case address_length tbyte rest of
             Some n \<Rightarrow> (if v = 5 \<and> c = 1 \<and> r = 0 \<and> n + 2 \<le> length rest
                       then Some (tbyte, take n rest, from_be_bytes (take 2 (drop n rest)), drop (n + 2) rest)
                       else None)
           | None \<Rightarrow> None)
      | _ \<Rightarrow> None)"

locale delimited_destination =
  fixes tbyte :: u8
    and encoded :: "'d \<Rightarrow> u8 list"
    and ok :: "'d \<Rightarrow> bool"
  assumes delimited: "ok d \<Longrightarrow> address_length tbyte (encoded d @ rest) = Some (length (encoded d))"
begin

lemma request_understood:
  "ok d \<Longrightarrow> parse_request ([5, 1, 0, tbyte] @ encoded d @ to_be_bytes port @ rest)
      = Some (tbyte, encoded d, port, rest)"
  by (simp add: parse_request_def delimited u16_be.take_enc)

lemma encoded_prefix_free:
  assumes "ok d" "ok d'" "encoded d @ xs = encoded d' @ ys"
  shows "encoded d = encoded d' \<and> xs = ys"
proof -
  have "length (encoded d) = length (encoded d')"
    using delimited [OF assms(1), of xs] delimited [OF assms(2), of ys] assms(3) by simp
  with assms(3) show ?thesis by simp
qed

end

definition service_bytes :: "(u8 list \<Rightarrow> u8 list) \<Rightarrow> u8 list \<Rightarrow> u8 list" where
  "service_bytes sha3_256 key =
     base32_ref (key @ [sha3_256 (salt @ key @ [3]) ! 0, sha3_256 (salt @ key @ [3]) ! 1, 3]) @ onion_suffix"

lemma length_onion_suffix [simp]: "length onion_suffix = 6"
  by (simp add: onion_suffix_def)

lemma length_service_bytes [simp]: "length (service_bytes sha3_256 key) = 62"
  by (simp add: service_bytes_def)

lemma pubkey_to_service_eq:
  "length key = 32 \<Longrightarrow> pubkey_to_service sha3_256 key = Some (service_bytes sha3_256 key)"
  by (simp add: pubkey_to_service_def Let_def base32_encode_35_ref service_bytes_def tor_version_def)

interpretation onion_dest: delimited_destination
  3 "\<lambda>key. 62 # service_bytes sha3_256 key" "\<lambda>key. length key = 32"
  by unfold_locales (simp add: address_length_def)

interpretation ipv4_dest: delimited_destination 1 "\<lambda>octets. octets" "\<lambda>octets. length octets = 4"
  by unfold_locales (simp add: address_length_def)

interpretation ipv6_dest: delimited_destination 4 "\<lambda>octets. octets" "\<lambda>octets. length octets = 16"
  by unfold_locales (simp add: address_length_def)

fun dest_ok :: "socks_destination \<Rightarrow> bool" where
  "dest_ok (OnionAddress key) = (length key = 32)"
| "dest_ok (SocksIpv4 octets) = (length octets = 4)"
| "dest_ok (SocksIpv6 octets) = (length octets = 16)"

lemma encode_dest_request:
  assumes "dest_ok d"
  shows "\<exists>bytes. encode_dest sha3_256 d = Some bytes
     \<and> parse_request ([5, 1, 0, type_byte d] @ bytes @ to_be_bytes port @ rest)
         = Some (type_byte d, bytes, port, rest)"
proof (cases d)
  case (OnionAddress key)
  then show ?thesis
    using assms onion_dest.request_understood [of key sha3_256 port rest]
    by (simp add: encode_dest_def pubkey_to_service_eq type_byte_def)
next
  case (SocksIpv4 octets)
  then show ?thesis
    using assms ipv4_dest.request_understood [of octets port rest]
    by (simp add: encode_dest_def type_byte_def)
next
  case (SocksIpv6 octets)
  then show ?thesis
    using assms ipv6_dest.request_understood [of octets port rest]
    by (simp add: encode_dest_def type_byte_def)
qed

section \<open>What a successful connect exchanged\<close>

definition bound_ok :: "u8 \<Rightarrow> u8 list \<Rightarrow> bool" where
  "bound_ok atyp bnd \<longleftrightarrow>
     (atyp = 1 \<and> length bnd = 6) \<or> (atyp = 4 \<and> length bnd = 18)
     \<or> (atyp = 3 \<and> (\<exists>n name. bnd = n # name \<and> length name = unat n + 2))"

lemma tcp_read_exact_Inr_iff:
  "tcp_read_exact n s = Inr (bs, s') \<longleftrightarrow>
     length bs = n \<and> (\<exists>rest. incoming s = bs @ rest \<and> s' = s\<lparr>incoming := rest\<rparr>)"
  by (auto simp: tcp_read_exact_def read_exact_def split: sum.splits if_splits)
    (metis append_take_drop_id)

lemma skip_bound_address_Inr_iff:
  "skip_bound_address atyp s = Inr s' \<longleftrightarrow>
     (\<exists>bnd rest. incoming s = bnd @ rest \<and> bound_ok atyp bnd \<and> s' = s\<lparr>incoming := rest\<rparr>)"
proof (cases "atyp = 3")
  case False
  then show ?thesis
    by (auto simp: skip_bound_address_def bound_ok_def rbind_Inr_iff tcp_read_exact_Inr_iff)
next
  case True
  show ?thesis
  proof (cases "incoming s")
    case Nil
    then show ?thesis
      using True by (auto simp: skip_bound_address_def bound_ok_def tcp_read_exact_def read_exact_def)
  next
    case (Cons n more)
    then have "tcp_read_exact 1 s = Inr ([n], s\<lparr>incoming := more\<rparr>)"
      by (simp add: tcp_read_exact_def read_exact_def)
    then have "skip_bound_address 3 s
        = rbind (tcp_read_exact (unat n + 2) (s\<lparr>incoming := more\<rparr>)) (\<lambda>(_, s). Inr s)"
      by (simp add: skip_bound_address_def)
    then show ?thesis
      using True Cons by (auto simp: bound_ok_def rbind_Inr_iff tcp_read_exact_Inr_iff)
        (metis append_Cons)
  qed
qed

lemma tcp_write_all_ok:
  "write_failure s = None \<Longrightarrow> tcp_write_all bs s = Inr (s\<lparr>outgoing := outgoing s @ bs\<rparr>)"
  by (simp add: tcp_write_all_def)

lemma check_Inr_iff [simp]: "check b e = Inr u \<longleftrightarrow> b"
  by (simp add: check_def)

lemma length_2_conv: "length xs = 2 \<longleftrightarrow> (\<exists>a b. xs = [a, b])"
  by (auto simp: numeral_eq_Suc length_Suc_conv)

lemma length_4_conv: "length xs = 4 \<longleftrightarrow> (\<exists>a b c d. xs = [a, b, c, d])"
  by (auto simp: numeral_eq_Suc length_Suc_conv)

lemma connect_dest_Inr_iff:
  assumes "write_failure s = None" "read_tmo \<noteq> 0"
  shows "connect_dest (Inr s) tbyte dest port read_tmo = Inr s' \<longleftrightarrow>
     (\<exists>rsv atyp bnd rest. incoming s = [5, 0, 5, 0, rsv, atyp] @ bnd @ rest \<and> bound_ok atyp bnd
        \<and> s' = s\<lparr>incoming := rest,
               outgoing := outgoing s @ [5, 1, 0] @ [5, 1, 0, tbyte] @ dest @ to_be_bytes port,
               read_timeout := Some read_tmo, write_timeout := None\<rparr>)"
proof -
  have "tor_bootstrap_timeout \<noteq> 0"
    by (simp add: tor_bootstrap_timeout_def from_secs_def nanos_per_sec_def)
  note timeouts = this set_read_timeout_def set_write_timeout_def
  show ?thesis (is "?l \<longleftrightarrow> ?r")
  proof
    assume ?l
    then show ?r
      using assms timeouts
      by (auto simp: connect_dest_def rbind_Inr_iff tcp_read_exact_Inr_iff skip_bound_address_Inr_iff
          tcp_write_all_ok length_2_conv length_4_conv)
        (intro exI conjI, rule refl, assumption, simp)
  next
    assume ?r
    then obtain rsv atyp bnd rest where r: "incoming s = [5, 0, 5, 0, rsv, atyp] @ bnd @ rest" "bound_ok atyp bnd"
      "s' = s\<lparr>incoming := rest,
         outgoing := outgoing s @ [5, 1, 0] @ [5, 1, 0, tbyte] @ dest @ to_be_bytes port,
         read_timeout := Some read_tmo, write_timeout := None\<rparr>" by blast
    have skip: "skip_bound_address atyp q = Inr (q\<lparr>incoming := rest\<rparr>)" if "incoming q = bnd @ rest" for q
      using that r(2) skip_bound_address_Inr_iff by blast
    show ?l
      using assms timeouts r(1,3)
      by (simp add: connect_dest_def tcp_read_exact_def read_exact_def tcp_write_all_ok skip)
  qed
qed

section \<open>Properties\<close>

text \<open>
  C26: On every 35-byte input \<open>base32_encode_35\<close> never indexes outside its output
  array, and it returns the 56 base-32 digits, most significant first, of the input read as a
  big-endian number; so two inputs with the same encoding are equal.
\<close>

theorem base32_encode_correct:
  assumes "length xs = 35"
  shows "base32_encode_35 xs = Some (map (\<lambda>j. alphabet ! ((be_val xs div 32 ^ (55 - j)) mod 32)) [0..<56])
     \<and> (\<forall>ys. length ys = 35 \<longrightarrow> base32_encode_35 ys = base32_encode_35 xs \<longrightarrow> ys = xs)"
  using base32_encode_35_ref [OF assms] base32_encode_35_ref base32_ref_inject [OF _ assms]
  by (auto simp: base32_ref_def digit32_def)

text \<open>
  The service name of a key is 62 bytes of ASCII that end in \<open>.onion\<close>, and it
  determines the key.
\<close>

lemma service_name:
  assumes "length key = 32"
  shows "\<exists>name. pubkey_to_service sha3_256 key = Some name \<and> length name = 62
     \<and> drop 56 name = onion_suffix \<and> (\<forall>b \<in> set name. b < 128)
     \<and> (\<forall>key'. length key' = 32 \<longrightarrow> pubkey_to_service sha3_256 key' = Some name \<longrightarrow> key' = key)"
proof -
  have "\<forall>b \<in> set alphabet. b < 128" "\<forall>b \<in> set onion_suffix. b < 128"
    by (simp_all add: alphabet_def onion_suffix_def upt_rec word_less_nat_alt)
  moreover have "set (base32_ref xs) \<subseteq> set alphabet" for xs
    by (auto simp: base32_ref_def digit32_def)
  ultimately have ascii: "\<forall>b \<in> set (service_bytes sha3_256 key). b < 128"
    by (auto simp: service_bytes_def)
  have "key' = key" if "length key' = 32" "service_bytes sha3_256 key' = service_bytes sha3_256 key" for key'
    using that assms by (auto simp: service_bytes_def dest!: base32_ref_inject [rotated 2])
  moreover have "drop 56 (service_bytes sha3_256 key) = onion_suffix"
    by (simp add: service_bytes_def)
  ultimately show ?thesis
    using assms ascii by (auto simp: pubkey_to_service_eq)
qed

text \<open>
  C13: \<open>Socks5Proxy::connect\<close> succeeds exactly when the proxy answers the greeting with
  "no authentication" and the request with a success reply whose bound address is complete.
  It has then written the greeting and one request that a SOCKS5 server parses to the
  destination and the port, it has consumed the replies and nothing of the stream behind
  them, and it leaves the caller's read timeout and no write timeout.
\<close>

theorem socks_connect_exchange:
  assumes "dest_ok d" "write_failure s = None" "read_tmo \<noteq> 0"
  shows "\<exists>dest. encode_dest sha3_256 d = Some dest
     \<and> parse_request ([5, 1, 0, type_byte d] @ dest @ to_be_bytes port) = Some (type_byte d, dest, port, [])
     \<and> (\<forall>s'. socks_connect sha3_256 (Inr s) d port read_tmo = Some (Inr s') \<longleftrightarrow>
          (\<exists>rsv atyp bnd rest. incoming s = [5, 0, 5, 0, rsv, atyp] @ bnd @ rest \<and> bound_ok atyp bnd
             \<and> s' = s\<lparr>incoming := rest,
                    outgoing := outgoing s @ [5, 1, 0] @ [5, 1, 0, type_byte d] @ dest @ to_be_bytes port,
                    read_timeout := Some read_tmo, write_timeout := None\<rparr>))"
  using encode_dest_request [OF assms(1), of sha3_256 port "[]"] connect_dest_Inr_iff [OF assms(2,3)]
  by (auto simp: socks_connect_def)

section \<open>Witnesses\<close>

text \<open>The key and the service name of the unit test, with the checksum its hash yields.\<close>

definition demo_key :: "u8 list" where
  "demo_key = [215, 90, 152, 1, 130, 177, 10, 183, 213, 75, 254, 211, 201, 100, 7, 58, 14, 225, 114, 243, 218, 166, 35, 37, 175, 2, 26, 104, 247, 7, 81, 26]"

definition demo_sha3 :: "u8 list \<Rightarrow> u8 list" where
  "demo_sha3 bs = [190, 201] @ replicate 30 0"

definition demo_proxy :: tcp_stream where
  "demo_proxy = \<lparr>incoming = [5, 0, 5, 0, 0, 1, 0, 0, 0, 0, 0, 0, 42], read_failure = UnexpectedEof,
     outgoing = [], write_failure = None, read_timeout = None, write_timeout = None\<rparr>"

lemma le_val_zeros: "le_val (replicate n 0) = 0"
  by (induction n) simp_all

theorem base32_encode_correct_witness:
  "base32_encode_35 (replicate 34 0 @ [37]) = Some (replicate 54 97 @ [98, 102])"
proof -
  have "length (replicate 34 0 @ [37 :: u8]) = 35" by simp
  note * = conjunct1 [OF base32_encode_correct [OF this]]
  have upt: "[0..<56] = 0 # 1 # [2..<56 :: nat]"
    by (subst upt_rec, subst upt_rec) (simp add: numeral_2_eq_2)
  have replicate_54: "replicate 54 (0 :: nat) = 0 # 0 # replicate 52 0" "replicate 52 (0 :: nat) = replicate 26 0 @ replicate 26 0"
    "replicate 26 (0 :: nat) = [0, 0, 0, 0, 0, 0, 0, 0, 0, 0, 0, 0, 0, 0, 0, 0, 0, 0, 0, 0, 0, 0, 0, 0, 0, 0]"
    by (simp_all add: numeral_eq_Suc)
  have v: "be_val (replicate 34 0 @ [37]) = 37"
    by (simp add: be_val_def le_val_zeros)
  have "map (\<lambda>j. (37 div 32 ^ (55 - j)) mod 32) [0..<56] = replicate 54 0 @ [1, 5 :: nat]"
    unfolding upt by (simp add: replicate_54)
  then have "map ((!) alphabet) (map (\<lambda>j. (37 div 32 ^ (55 - j)) mod 32) [0..<56])
      = replicate 54 97 @ [98, 102]"
    by (simp add: alphabet_list del: upt_Suc)
  with * show ?thesis unfolding v by (simp add: comp_def del: upt_Suc)
qed

theorem socks_connect_exchange_witness:
  "\<exists>s'. socks_connect demo_sha3 (Inr demo_proxy) (SocksIpv4 [127, 0, 0, 1]) 8333 1 = Some (Inr s')
     \<and> incoming s' = [42] \<and> read_timeout s' = Some 1"
proof -
  have ok: "dest_ok (SocksIpv4 [127, 0, 0, 1])" "write_failure demo_proxy = None"
    by (simp_all add: demo_proxy_def)
  obtain dest where dest: "\<forall>s'. socks_connect demo_sha3 (Inr demo_proxy) (SocksIpv4 [127, 0, 0, 1]) 8333 1 = Some (Inr s') \<longleftrightarrow>
      (\<exists>rsv atyp bnd rest. incoming demo_proxy = [5, 0, 5, 0, rsv, atyp] @ bnd @ rest \<and> bound_ok atyp bnd
         \<and> s' = demo_proxy\<lparr>incoming := rest,
              outgoing := outgoing demo_proxy @ [5, 1, 0] @ [5, 1, 0, type_byte (SocksIpv4 [127, 0, 0, 1])] @ dest @ to_be_bytes (8333 :: u16),
              read_timeout := Some 1, write_timeout := None\<rparr>)"
    using socks_connect_exchange [OF ok one_neq_zero, of demo_sha3 8333] by blast
  have "incoming demo_proxy = [5, 0, 5, 0, 0, 1] @ [0, 0, 0, 0, 0, 0] @ [42]" "bound_ok 1 [0, 0, 0, 0, 0, 0]"
    by (simp_all add: demo_proxy_def bound_ok_def)
  then have "socks_connect demo_sha3 (Inr demo_proxy) (SocksIpv4 [127, 0, 0, 1]) 8333 1 = Some (Inr (demo_proxy\<lparr>incoming := [42],
      outgoing := outgoing demo_proxy @ [5, 1, 0] @ [5, 1, 0, type_byte (SocksIpv4 [127, 0, 0, 1])] @ dest @ to_be_bytes (8333 :: u16),
      read_timeout := Some 1, write_timeout := None\<rparr>))"
    using dest by blast
  then show ?thesis by auto
qed

end
