(* ===== verification/Connection.thy ===== *)
theory Connection
  imports Handshake Socks5
begin

text \<open>
  Connections, p2p/src/net.rs and p2p/src/lib.rs: the framing of messages on a byte
  stream, the whole handshake, the metrics a reader keeps, and the writer thread with its
  pings.  The encodings of messages and message headers, the network magics, the service
  flag test and command names are code of the \<open>bitcoin\<close> crate: they are the fields of
  a record \<open>wire\<close> that every definition takes, and theorems that depend on them say so
  with \<open>wire_ok\<close>.  A poisoned lock is not modelled; readings of the clock and random
  nonces are arguments.
\<close>

type_synonym magic = u32

record 'tx wire =
  enc_raw :: "magic \<Rightarrow> 'tx network_message \<Rightarrow> u8 list"
  dec_header :: "u8 list \<Rightarrow> string + (magic \<times> u32)"
  dec_raw :: "u8 list \<Rightarrow> string + 'tx network_message"
  magic_of :: "network \<Rightarrow> magic"
  has_services :: "u64 \<Rightarrow> u64 \<Rightarrow> bool"
  command :: "'tx network_message \<Rightarrow> string"

datatype net_error =
    Deserialize string
  | Io io_error
  | HandshakeError handshake_error
  | UnexpectedMagic magic
  | MissingVersion
  | ChannelClosed

section \<open>Transports\<close>

definition write_message ::
    "'tx wire \<Rightarrow> magic \<Rightarrow> 'tx network_message \<Rightarrow> tcp_stream \<Rightarrow> io_error + tcp_stream" where
  "write_message w mg m s = tcp_write_all (enc_raw w mg m) s"

fun write_messages ::
    "'tx wire \<Rightarrow> magic \<Rightarrow> 'tx network_message list \<Rightarrow> tcp_stream \<Rightarrow> io_error + tcp_stream" where
  "write_messages w mg [] s = Inr s"
| "write_messages w mg (m # ms) s = rbind (write_message w mg m s) (write_messages w mg ms)"

definition transport_read ::
    "'tx wire \<Rightarrow> magic \<Rightarrow> tcp_stream \<Rightarrow> net_error + ('tx network_message option \<times> tcp_stream)" where
  "transport_read w mg s =
     rbind (map_err Io (tcp_read_exact 24 s)) (\<lambda>(buf, s).
     rbind (map_err Deserialize (dec_header w buf)) (\<lambda>(mg', len).
     rbind (check (mg' = mg) (UnexpectedMagic mg')) (\<lambda>_.
     rbind (map_err Io (tcp_read_exact (unat len) s)) (\<lambda>(contents, s).
     rbind (map_err Deserialize (dec_raw w (buf @ contents))) (\<lambda>m.
       Inr (Some m, s))))))"

section \<open>Metrics\<close>

text \<open>
  The count of a rate is a double in the source, exact for whole numbers below
  \<open>2 ^ 53\<close>; it is a natural number here.  An \<open>Instant\<close> is its distance from a fixed
  origin.
\<close>

type_synonym instant = duration

datatype message_rate = NoneReceived | Ongoing nat instant

definition add_messages :: "message_rate \<Rightarrow> nat \<Rightarrow> instant \<Rightarrow> message_rate" where
  "add_messages r n now =
     (if n = 0 then r
      else let k = min n (2 ^ 32 - 1)
           in case r of NoneReceived \<Rightarrow> Ongoing k now | Ongoing c start \<Rightarrow> Ongoing (c + k) start)"

definition add_single_message :: "message_rate \<Rightarrow> instant \<Rightarrow> message_rate" where
  "add_single_message r now = add_messages r 1 now"

definition total_count :: "message_rate \<Rightarrow> u32" where
  "total_count r = (case r of NoneReceived \<Rightarrow> 0 | Ongoing c _ \<Rightarrow> word_of_nat (min c (2 ^ 32 - 1)))"

datatype timed_message = BlockHeaders | CFilters | TimedBlock | TimedAddr | TransactionAnnouncement

record timed_messages =
  tracked :: "timed_message \<rightharpoonup> message_rate"
  last_block :: instant

definition timed_messages_new :: "instant \<Rightarrow> timed_messages" where
  "timed_messages_new now =
     \<lparr>tracked = map_of (map (\<lambda>key. (key, NoneReceived))
        [BlockHeaders, CFilters, TimedBlock, TimedAddr, TransactionAnnouncement]),
      last_block = now\<rparr>"

text \<open>\<open>None\<close> is the panic of \<open>expect\<close> on a missing key.\<close>

definition add_many :: "timed_message \<Rightarrow> nat \<Rightarrow> instant \<Rightarrow> timed_messages \<Rightarrow> timed_messages option" where
  "add_many key n now t =
     map_option (\<lambda>r. t\<lparr>tracked := (tracked t)(key \<mapsto> add_messages r n now)\<rparr>) (tracked t key)"

definition add_single :: "timed_message \<Rightarrow> instant \<Rightarrow> timed_messages \<Rightarrow> timed_messages option" where
  "add_single key now t =
     map_option (\<lambda>r. t\<lparr>tracked := (tracked t)(key \<mapsto> add_single_message r now)\<rparr>) (tracked t key)"

definition message_rate_of :: "timed_messages \<Rightarrow> timed_message \<Rightarrow> message_rate option" where
  "message_rate_of t key = tracked t key"

datatype outbound_ping = Waiting u64 instant | LastReceived instant

record connection_metrics =
  cm_feeler :: feeler_data
  cm_preferences :: preferences
  cm_timed :: timed_messages
  cm_start :: instant
  cm_ping :: outbound_ping

definition connection_time :: "connection_metrics \<Rightarrow> instant \<Rightarrow> duration" where
  "connection_time m now = now - cm_start m"

definition stale_block :: "connection_metrics \<Rightarrow> instant \<Rightarrow> duration \<Rightarrow> bool" where
  "stale_block m now timeout \<longleftrightarrow> now - last_block (cm_timed m) > timeout"

definition ping_timed_out :: "connection_metrics \<Rightarrow> instant \<Rightarrow> duration \<Rightarrow> bool" where
  "ping_timed_out m now timeout =
     (case cm_ping m of Waiting _ since \<Rightarrow> now - since > timeout | LastReceived _ \<Rightarrow> False)"

section \<open>The reader\<close>

fun note_inventory :: "inventory list \<Rightarrow> instant \<Rightarrow> timed_messages \<Rightarrow> timed_messages option" where
  "note_inventory [] now t = Some t"
| "note_inventory (i # items) now t =
     (let t1 = (case i of
            InvWTx _ \<Rightarrow> add_single TransactionAnnouncement now t
          | InvWitnessTransaction _ \<Rightarrow> add_single TransactionAnnouncement now t
          | InvTransaction _ \<Rightarrow> add_single TransactionAnnouncement now t
          | _ \<Rightarrow> Some t);
          t2 = map_option (\<lambda>t. case i of
            InvBlock _ \<Rightarrow> t\<lparr>last_block := now\<rparr>
          | InvWitnessBlock _ \<Rightarrow> t\<lparr>last_block := now\<rparr>
          | InvCompactBlock _ \<Rightarrow> t\<lparr>last_block := now\<rparr>
          | _ \<Rightarrow> t) t1
      in case t2 of None \<Rightarrow> None | Some t \<Rightarrow> note_inventory items now t)"

text \<open>What \<open>ConnectionReader::read_message\<close> does to the metrics for one message.\<close>

definition note_message ::
    "'tx network_message \<Rightarrow> instant \<Rightarrow> connection_metrics \<Rightarrow> connection_metrics option" where
  "note_message m now c =
     (case m of
        SendHeaders \<Rightarrow> Some (c\<lparr>cm_preferences := (cm_preferences c)\<lparr>pref_sendheaders := True\<rparr>\<rparr>)
      | SendCmpct cmpct \<Rightarrow> Some (c\<lparr>cm_preferences := (cm_preferences c)\<lparr>pref_sendcmpct := cmpct\<rparr>\<rparr>)
      | Block _ \<Rightarrow> map_option (\<lambda>t. c\<lparr>cm_timed := t\<rparr>) (add_single TimedBlock now (cm_timed c))
      | Headers _ \<Rightarrow> map_option (\<lambda>t. c\<lparr>cm_timed := t\<lparr>last_block := now\<rparr>\<rparr>)
                      (add_single BlockHeaders now (cm_timed c))
      | CFilter _ \<Rightarrow> map_option (\<lambda>t. c\<lparr>cm_timed := t\<rparr>) (add_single CFilters now (cm_timed c))
      | Addr addrs \<Rightarrow> map_option (\<lambda>t. c\<lparr>cm_timed := t\<rparr>) (add_many TimedAddr (length addrs) now (cm_timed c))
      | AddrV2 addrs \<Rightarrow> map_option (\<lambda>t. c\<lparr>cm_timed := t\<rparr>) (add_many TimedAddr (length addrs) now (cm_timed c))
      | Pong pong \<Rightarrow>
          Some (case cm_ping c of
                  Waiting nonce _ \<Rightarrow> (if pong = nonce then c\<lparr>cm_ping := LastReceived now\<rparr> else c)
                | LastReceived _ \<Rightarrow> c)
      | Inv payload \<Rightarrow> map_option (\<lambda>t. c\<lparr>cm_timed := t\<rparr>) (note_inventory payload now (cm_timed c))
      | _ \<Rightarrow> Some c)"

definition reader_read_message ::
    "'tx wire \<Rightarrow> magic \<Rightarrow> instant \<Rightarrow> connection_metrics \<Rightarrow> tcp_stream
       \<Rightarrow> (net_error + ('tx network_message option \<times> connection_metrics \<times> tcp_stream)) option" where
  "reader_read_message w mg now c s =
     (case transport_read w mg s of
        Inl e \<Rightarrow> Some (Inl e)
      | Inr (None, s) \<Rightarrow> Some (Inr (None, c, s))
      | Inr (Some m, s) \<Rightarrow> map_option (\<lambda>c. Inr (Some m, c, s)) (note_message m now c))"

section \<open>The handshake\<close>

lemma transport_read_shrinks:
  assumes "transport_read w mg s = Inr (m, s')"
  shows "length (incoming s') < length (incoming s)"
  using assms
  by (auto simp: transport_read_def rbind_Inr_iff tcp_read_exact_Inr_iff map_err_Inr_iff)

function negotiate_loop ::
    "'tx wire \<Rightarrow> magic \<Rightarrow> initialized_handshake \<Rightarrow> tcp_stream \<Rightarrow> net_error + (completed_handshake \<times> tcp_stream)" where
  "negotiate_loop w mg h s =
     (case transport_read w mg s of
        Inl e \<Rightarrow> Inl e
      | Inr (None, s') \<Rightarrow> negotiate_loop w mg h s'
      | Inr (Some m, s') \<Rightarrow>
          (case negotiate (command w) h m of
             Inl e \<Rightarrow> Inl (HandshakeError e)
           | Inr (h', None) \<Rightarrow> negotiate_loop w mg h' s'
           | Inr (h', Some (complete, responses)) \<Rightarrow>
               rbind (map_err Io (write_messages w mg responses s')) (\<lambda>s''. Inr (complete, s''))))"
  by pat_completeness auto
termination
  by (relation "measure (\<lambda>(w, mg, h, s). length (incoming s))") (auto dest: transport_read_shrinks)

declare negotiate_loop.simps [simp del]

text \<open>The outer \<open>None\<close> is the overflow in \<^const>\<open>start_handshake\<close>.\<close>

definition handshake ::
    "'tx wire \<Rightarrow> connection_config \<Rightarrow> duration \<Rightarrow> i64 \<Rightarrow> u64 \<Rightarrow> instant \<Rightarrow> tcp_stream
       \<Rightarrow> (net_error + (connection_metrics \<times> tcp_stream)) option" where
  "handshake w c unix_time unix_secs nonce now s =
     (let mg = magic_of w (cfg_network c) in
      case write_message w mg (Version (build_our_version c unix_time nonce)) s of
        Inl e \<Rightarrow> Some (Inl (Io e))
      | Inr s1 \<Rightarrow>
          (case transport_read w mg s1 of
             Inl e \<Rightarrow> Some (Inl e)
           | Inr (None, s2) \<Rightarrow> Some (Inl MissingVersion)
           | Inr (Some m, s2) \<Rightarrow>
               (case start_handshake (has_services w) (command w) c unix_secs m nonce of
                  None \<Rightarrow> None
                | Some (Inl e) \<Rightarrow> Some (Inl (HandshakeError e))
                | Some (Inr (h, suggested)) \<Rightarrow>
                    Some (rbind (map_err Io (write_messages w mg suggested s2)) (\<lambda>s3.
                      rbind (negotiate_loop w mg h s3) (\<lambda>(complete, s4).
                        Inr (\<lparr>cm_feeler = ch_feeler complete, cm_preferences = ch_preferences complete,
                              cm_timed = timed_messages_new now, cm_start = now,
                              cm_ping = LastReceived now\<rparr>, s4)))))))"

record timeout_params =
  tp_read :: "duration option"
  tp_write :: "duration option"
  tp_tcp :: duration
  tp_ping_interval :: duration

definition timeout_params_default :: timeout_params where
  "timeout_params_default = \<lparr>tp_read = Some (from_secs 60), tp_write = None, tp_tcp = from_secs 2,
     tp_ping_interval = from_secs 30\<rparr>"

definition set_read :: "duration \<Rightarrow> timeout_params \<Rightarrow> timeout_params" where
  "set_read d tp = tp\<lparr>tp_read := Some d\<rparr>"

definition set_write :: "duration \<Rightarrow> timeout_params \<Rightarrow> timeout_params" where
  "set_write d tp = tp\<lparr>tp_write := Some d\<rparr>"

definition tcp_handshake_timeout :: "duration \<Rightarrow> timeout_params \<Rightarrow> timeout_params" where
  "tcp_handshake_timeout d tp = tp\<lparr>tp_tcp := d\<rparr>"

definition set_ping_interval :: "duration \<Rightarrow> timeout_params \<Rightarrow> timeout_params" where
  "set_ping_interval every tp = tp\<lparr>tp_ping_interval := every\<rparr>"

text \<open>
  \<open>dial\<close> is the outcome of the TCP connect; \<open>bound\<close> that of binding the listener and
  \<open>accepted\<close> that of its accept.
\<close>

definition open_connection ::
    "'tx wire \<Rightarrow> connection_config \<Rightarrow> duration \<Rightarrow> i64 \<Rightarrow> u64 \<Rightarrow> instant \<Rightarrow> timeout_params
       \<Rightarrow> io_error + tcp_stream \<Rightarrow> (net_error + (connection_metrics \<times> tcp_stream)) option" where
  "open_connection w c unix_time unix_secs nonce now tp dial =
     (case rbind dial (\<lambda>s. rbind (set_read_timeout (tp_read tp) s) (set_write_timeout (tp_write tp))) of
        Inl e \<Rightarrow> Some (Inl (Io e))
      | Inr s \<Rightarrow> handshake w c unix_time unix_secs nonce now s)"

definition listen ::
    "'tx wire \<Rightarrow> connection_config \<Rightarrow> duration \<Rightarrow> i64 \<Rightarrow> u64 \<Rightarrow> instant \<Rightarrow> timeout_params
       \<Rightarrow> io_error + unit \<Rightarrow> io_error + tcp_stream \<Rightarrow> (net_error + (connection_metrics \<times> tcp_stream)) option" where
  "listen w c unix_time unix_secs nonce now tp bound accepted =
     (case rbind bound (\<lambda>_. rbind accepted (\<lambda>s.
             rbind (set_read_timeout (tp_read tp) s) (set_write_timeout (tp_write tp)))) of
        Inl e \<Rightarrow> Some (Inl (Io e))
      | Inr s \<Rightarrow> handshake w c unix_time unix_secs nonce now s)"

section \<open>The writer thread\<close>

datatype 'tx write_request = Shutdown | SendMessage "'tx network_message"

datatype 'tx received = Request "'tx write_request" | RecvTimeout | Disconnected

datatype ('s) writer_outcome = Running 's | Stopped "io_error option"

text \<open>
  One round of \<open>OpenWriter::maintain_connection\<close> on the stream and the shared ping
  state; \<open>shut\<close> is the socket's \<open>shutdown(Both)\<close>.
\<close>

definition writer_round ::
    "'tx wire \<Rightarrow> magic \<Rightarrow> (tcp_stream \<Rightarrow> io_error + tcp_stream) \<Rightarrow> duration \<Rightarrow> 'tx received \<Rightarrow> instant \<Rightarrow> u64
       \<Rightarrow> tcp_stream \<times> outbound_ping \<Rightarrow> (tcp_stream \<times> outbound_ping) writer_outcome" where
  "writer_round w mg shut interval msg now nonce st =
     (let (s, ping) = st;
          served = (case msg of
              Request (SendMessage m) \<Rightarrow> Some (write_message w mg m s)
            | Request Shutdown \<Rightarrow> Some (shut s)
            | RecvTimeout \<Rightarrow> Some (Inr s)
            | Disconnected \<Rightarrow> None)
      in case served of
           None \<Rightarrow> Stopped None
         | Some (Inl e) \<Rightarrow> Stopped (Some e)
         | Some (Inr s) \<Rightarrow>
             (case ping of
                LastReceived since \<Rightarrow>
                  (if now - since > interval then
                     (case write_message w mg (Ping nonce) s of
                        Inl e \<Rightarrow> Stopped (Some e)
                      | Inr s \<Rightarrow> Running (s, Waiting nonce now))
                   else Running (s, ping))
              | Waiting _ _ \<Rightarrow> Running (s, ping)))"

section \<open>Framing\<close>

text \<open>
  What the framing relies on of the message encoding, for the messages of \<open>M\<close>: the
  first 24 bytes decode to the magic and the length of the rest, and the whole decodes to
  the message.
\<close>

definition wire_ok :: "'tx wire \<Rightarrow> 'tx network_message set \<Rightarrow> bool" where
  "wire_ok w M \<longleftrightarrow>
     (\<forall>mg. \<forall>m\<in>M. 24 \<le> length (enc_raw w mg m) \<and> length (enc_raw w mg m) < 2 ^ 32
        \<and> dec_header w (take 24 (enc_raw w mg m)) = Inr (mg, word_of_nat (length (enc_raw w mg m) - 24))
        \<and> dec_raw w (enc_raw w mg m) = Inr m)"

lemma tcp_read_exact_append:
  "incoming s = bs @ rest \<Longrightarrow> length bs = n \<Longrightarrow> tcp_read_exact n s = Inr (bs, s\<lparr>incoming := rest\<rparr>)"
  by (simp add: tcp_read_exact_Inr_iff)

lemma transport_read_enc:
  assumes "wire_ok w M" "m \<in> M" "incoming s = enc_raw w mg' m @ rest"
  shows "transport_read w mg s =
     (if mg' = mg then Inr (Some m, s\<lparr>incoming := rest\<rparr>) else Inl (UnexpectedMagic mg'))"
proof -
  let ?bs = "enc_raw w mg' m"
  have ok: "24 \<le> length ?bs" "dec_header w (take 24 ?bs) = Inr (mg', word_of_nat (length ?bs - 24))"
    "dec_raw w ?bs = Inr m" "length ?bs < 2 ^ 32"
    using assms(1,2) by (auto simp: wire_ok_def)
  have "tcp_read_exact 24 s = Inr (take 24 ?bs, s\<lparr>incoming := drop 24 ?bs @ rest\<rparr>)"
    using assms(3) ok(1) by (intro tcp_read_exact_append) simp_all
  moreover have "unat (word_of_nat (length ?bs - 24) :: u32) = length ?bs - 24"
    using ok(4) by (simp add: unat_of_nat take_bit_eq_mod)
  moreover have "tcp_read_exact (length ?bs - 24) (s\<lparr>incoming := drop 24 ?bs @ rest\<rparr>)
      = Inr (drop 24 ?bs, s\<lparr>incoming := rest\<rparr>)"
    by (subst tcp_read_exact_append [of _ "drop 24 ?bs" rest]) simp_all
  ultimately show ?thesis
    using ok by (simp add: transport_read_def)
qed

lemma write_messages_ok:
  "write_failure s = None \<Longrightarrow>
     write_messages w mg ms s = Inr (s\<lparr>outgoing := outgoing s @ concat (map (enc_raw w mg) ms)\<rparr>)"
  by (induction ms arbitrary: s) (simp_all add: write_message_def tcp_write_all_ok)

fun read_count ::
    "'tx wire \<Rightarrow> magic \<Rightarrow> nat \<Rightarrow> tcp_stream \<Rightarrow> net_error + ('tx network_message option list \<times> tcp_stream)" where
  "read_count w mg 0 s = Inr ([], s)"
| "read_count w mg (Suc n) s =
     rbind (transport_read w mg s) (\<lambda>(m, s). rbind (read_count w mg n s) (\<lambda>(ms, s). Inr (m # ms, s)))"

lemma read_count_enc:
  assumes "wire_ok w M" "set ms \<subseteq> M" "incoming s = concat (map (enc_raw w mg) ms) @ rest"
  shows "read_count w mg (length ms) s = Inr (map Some ms, s\<lparr>incoming := rest\<rparr>)"
  using assms(2,3)
proof (induction ms arbitrary: s)
  case Nil
  then show ?case by (cases s) simp
next
  case (Cons m ms)
  have "transport_read w mg s = Inr (Some m, s\<lparr>incoming := concat (map (enc_raw w mg) ms) @ rest\<rparr>)"
    using transport_read_enc [OF assms(1), of m s mg "concat (map (enc_raw w mg) ms) @ rest"] Cons.prems by simp
  then show ?case
    using Cons.IH [of "s\<lparr>incoming := concat (map (enc_raw w mg) ms) @ rest\<rparr>"] Cons.prems by simp
qed

section \<open>A handshake on a whole stream\<close>

lemma negotiate_loop_announcements:
  assumes "wire_ok w M" "set ms \<subseteq> M" "\<forall>m \<in> set ms. negotiable m"
    and "incoming s = concat (map (enc_raw w mg) ms) @ rest"
  shows "negotiate_loop w mg h s
       = negotiate_loop w mg (h\<lparr>ih_preferences := announced (ih_preferences h) ms\<rparr>) (s\<lparr>incoming := rest\<rparr>)"
  using assms(2-4)
proof (induction ms arbitrary: s h)
  case Nil
  then show ?case by (cases s; cases h) simp
next
  case (Cons m ms)
  let ?s = "s\<lparr>incoming := concat (map (enc_raw w mg) ms) @ rest\<rparr>"
  let ?h = "h\<lparr>ih_preferences := announced (ih_preferences h) [m]\<rparr>"
  have "transport_read w mg s = Inr (Some m, ?s)"
    using transport_read_enc [OF assms(1), of m s mg "concat (map (enc_raw w mg) ms) @ rest"] Cons.prems by simp
  then have "negotiate_loop w mg h s = negotiate_loop w mg ?h ?s"
    using Cons.prems negotiate_announcement [of m "command w" h]
    by (subst negotiate_loop.simps) simp
  then show ?case
    using Cons.IH [of ?s ?h] Cons.prems by (simp add: announced_Cons)
qed

lemma negotiate_loop_verack:
  assumes "wire_ok w M" "set ms \<subseteq> M" "\<forall>m \<in> set ms. negotiable m" "Verack \<in> M" "write_failure s = None"
    and "incoming s = concat (map (enc_raw w mg) ms) @ enc_raw w mg Verack @ rest"
  shows "negotiate_loop w mg h s =
     Inr (\<lparr>ch_feeler = ih_feeler h, ch_preferences = announced (ih_preferences h) ms\<rparr>,
       s\<lparr>incoming := rest, outgoing := outgoing s @ concat (map (enc_raw w mg)
           ([Verack, SendCmpct (ih_send_cmpct h), FeeFilter (ih_fee_filter h)]
              @ (if ih_request_addr h then [GetAddr] else [])))\<rparr>)"
proof -
  let ?s = "s\<lparr>incoming := enc_raw w mg Verack @ rest\<rparr>"
  have "transport_read w mg ?s = Inr (Some Verack, s\<lparr>incoming := rest\<rparr>)"
    using transport_read_enc [OF assms(1,4), of ?s mg rest] by simp
  then show ?thesis
    unfolding negotiate_loop_announcements [OF assms(1-3,6)]
    using assms(5) by (subst negotiate_loop.simps) (simp add: negotiate_Verack write_messages_ok del: write_messages.simps)
qed

section \<open>The metrics never miss a key\<close>

definition tracks_all :: "timed_messages \<Rightarrow> bool" where
  "tracks_all t \<longleftrightarrow> (\<forall>key. tracked t key \<noteq> None)"

lemma tracks_all_new: "tracks_all (timed_messages_new now)"
proof -
  have "tracked (timed_messages_new now) key = Some NoneReceived" for key
    by (cases key) (simp_all add: timed_messages_new_def)
  then show ?thesis by (simp add: tracks_all_def)
qed

definition rate_count :: "message_rate \<Rightarrow> nat" where
  "rate_count r = (case r of NoneReceived \<Rightarrow> 0 | Ongoing c _ \<Rightarrow> c)"

definition count_of :: "timed_messages \<Rightarrow> timed_message \<Rightarrow> nat" where
  "count_of t key = (case tracked t key of None \<Rightarrow> 0 | Some r \<Rightarrow> rate_count r)"

lemma rate_count_add_messages: "rate_count (add_messages r n now) = rate_count r + min n (2 ^ 32 - 1)"
  by (simp add: rate_count_def add_messages_def Let_def split: message_rate.split)

lemma add_many_ok:
  assumes "tracks_all t"
  shows "\<exists>t'. add_many key n now t = Some t' \<and> tracks_all t' \<and> last_block t' = last_block t
     \<and> count_of t' = (count_of t)(key := count_of t key + min n (2 ^ 32 - 1))"
proof -
  obtain r where "tracked t key = Some r" using assms by (auto simp: tracks_all_def)
  then show ?thesis
    using assms by (auto simp: add_many_def tracks_all_def count_of_def rate_count_add_messages fun_eq_iff)
qed

lemma add_single_many: "add_single key now t = add_many key 1 now t"
  by (simp add: add_single_def add_many_def add_single_message_def)

text \<open>How often one message counts for a rate, and when it refreshes \<open>last_block\<close>.\<close>

definition is_tx_announcement :: "inventory \<Rightarrow> bool" where
  "is_tx_announcement i =
     (case i of InvWTx _ \<Rightarrow> True | InvWitnessTransaction _ \<Rightarrow> True | InvTransaction _ \<Rightarrow> True | _ \<Rightarrow> False)"

definition is_block_announcement :: "inventory \<Rightarrow> bool" where
  "is_block_announcement i =
     (case i of InvBlock _ \<Rightarrow> True | InvWitnessBlock _ \<Rightarrow> True | InvCompactBlock _ \<Rightarrow> True | _ \<Rightarrow> False)"

definition weight :: "'tx network_message \<Rightarrow> timed_message \<Rightarrow> nat" where
  "weight m key =
     (case (m, key) of
        (Block _, TimedBlock) \<Rightarrow> 1
      | (Headers _, BlockHeaders) \<Rightarrow> 1
      | (CFilter _, CFilters) \<Rightarrow> 1
      | (Addr addrs, TimedAddr) \<Rightarrow> min (length addrs) (2 ^ 32 - 1)
      | (AddrV2 addrs, TimedAddr) \<Rightarrow> min (length addrs) (2 ^ 32 - 1)
      | (Inv items, TransactionAnnouncement) \<Rightarrow> length (filter is_tx_announcement items)
      | _ \<Rightarrow> 0)"

definition refreshes :: "'tx network_message \<Rightarrow> bool" where
  "refreshes m = (case m of Headers _ \<Rightarrow> True | Inv items \<Rightarrow> (\<exists>i \<in> set items. is_block_announcement i) | _ \<Rightarrow> False)"

lemma note_inventory_ok:
  assumes "tracks_all t"
  shows "\<exists>t'. note_inventory items now t = Some t' \<and> tracks_all t'
     \<and> last_block t' = (if \<exists>i \<in> set items. is_block_announcement i then now else last_block t)
     \<and> count_of t' = (count_of t)(TransactionAnnouncement :=
          count_of t TransactionAnnouncement + length (filter is_tx_announcement items))"
  using assms
proof (induction items arbitrary: t)
  case Nil
  then show ?case by simp
next
  case (Cons i items)
  obtain t1 where t1: "add_single TransactionAnnouncement now t = Some t1" "tracks_all t1"
    "last_block t1 = last_block t"
    "count_of t1 = (count_of t)(TransactionAnnouncement := count_of t TransactionAnnouncement + 1)"
    using add_many_ok [OF Cons.prems, of TransactionAnnouncement 1 now] by (auto simp: add_single_many)
  have upd: "tracks_all (t\<lparr>last_block := now\<rparr>)" "count_of (t\<lparr>last_block := now\<rparr>) = count_of t"
    using Cons.prems by (simp_all add: tracks_all_def count_of_def fun_eq_iff)
  show ?case
  proof (cases "is_tx_announcement i")
    case True
    then have "note_inventory (i # items) now t = note_inventory items now t1" "\<not> is_block_announcement i"
      using t1(1) by (cases i; simp add: is_tx_announcement_def is_block_announcement_def)+
    then show ?thesis
      using Cons.IH [OF t1(2)] t1(3,4) True by (auto simp: fun_eq_iff)
  next
    case False
    then have "note_inventory (i # items) now t
        = note_inventory items now (if is_block_announcement i then t\<lparr>last_block := now\<rparr> else t)"
      by (cases i; simp add: is_tx_announcement_def is_block_announcement_def)
    then show ?thesis
      using Cons.IH [OF upd(1)] Cons.IH [OF Cons.prems] False upd(2) by auto
  qed
qed

lemma note_message_ok:
  assumes "tracks_all (cm_timed c)"
  shows "\<exists>c'. note_message m now c = Some c' \<and> tracks_all (cm_timed c')
     \<and> last_block (cm_timed c') = (if refreshes m then now else last_block (cm_timed c))
     \<and> (\<forall>key. count_of (cm_timed c') key = count_of (cm_timed c) key + weight m key)"
proof -
  have upd: "tracks_all (t\<lparr>last_block := now\<rparr>) = tracks_all t" "count_of (t\<lparr>last_block := now\<rparr>) = count_of t" for t
    by (simp_all add: tracks_all_def count_of_def fun_eq_iff)
  note ok = add_many_ok [OF assms, of _ _ now]
  show ?thesis
  proof (cases m)
    case (Inv items)
    obtain t' where t': "note_inventory items now (cm_timed c) = Some t'" "tracks_all t'"
      "last_block t' = (if \<exists>i \<in> set items. is_block_announcement i then now else last_block (cm_timed c))"
      "count_of t' = (count_of (cm_timed c))(TransactionAnnouncement :=
          count_of (cm_timed c) TransactionAnnouncement + length (filter is_tx_announcement items))"
      using note_inventory_ok [OF assms] by blast
    then show ?thesis
      by (auto simp: Inv note_message_def refreshes_def weight_def split: timed_message.split)
  next
    case (Pong x)
    then show ?thesis
      using assms by (auto simp: note_message_def refreshes_def weight_def split: outbound_ping.split)
  next
    case (Block x)
    then show ?thesis
      using ok [of TimedBlock 1]
      by (auto simp: note_message_def add_single_many refreshes_def weight_def split: timed_message.split)
  next
    case (Headers x)
    then show ?thesis
      using ok [of BlockHeaders 1]
      by (auto simp: note_message_def add_single_many refreshes_def weight_def upd split: timed_message.split)
  next
    case (CFilter x)
    then show ?thesis
      using ok [of CFilters 1]
      by (auto simp: note_message_def add_single_many refreshes_def weight_def split: timed_message.split)
  next
    case (Addr x)
    then show ?thesis
      using ok [of TimedAddr "length x"]
      by (auto simp: note_message_def refreshes_def weight_def split: timed_message.split)
  next
    case (AddrV2 x)
    then show ?thesis
      using ok [of TimedAddr "length x"]
      by (auto simp: note_message_def refreshes_def weight_def split: timed_message.split)
  qed (use assms in \<open>auto simp: note_message_def refreshes_def weight_def\<close>)
qed

fun note_messages ::
    "('tx network_message \<times> instant) list \<Rightarrow> connection_metrics \<Rightarrow> connection_metrics option" where
  "note_messages [] c = Some c"
| "note_messages ((m, now) # ms) c =
     (case note_message m now c of None \<Rightarrow> None | Some c \<Rightarrow> note_messages ms c)"

section \<open>Pings\<close>

text \<open>
  The writer thread and the reader share the ping state.  The relation follows both and
  records the nonces of the pings written and of those answered.
\<close>

inductive ping_trace ::
    "'tx wire \<Rightarrow> magic \<Rightarrow> (tcp_stream \<Rightarrow> io_error + tcp_stream) \<Rightarrow> duration
       \<Rightarrow> tcp_stream \<Rightarrow> outbound_ping \<Rightarrow> u64 list \<Rightarrow> u64 list \<Rightarrow> bool"
  for w mg shut interval where
  opened: "ping_trace w mg shut interval s (LastReceived now) [] []"
| quiet_round: "ping_trace w mg shut interval s ping sent answered \<Longrightarrow>
     writer_round w mg shut interval msg now nonce (s, ping) = Running (s', ping) \<Longrightarrow>
     ping_trace w mg shut interval s' ping sent answered"
| ping_round: "ping_trace w mg shut interval s ping sent answered \<Longrightarrow>
     writer_round w mg shut interval msg now nonce (s, ping) = Running (s', ping') \<Longrightarrow> ping' \<noteq> ping \<Longrightarrow>
     ping_trace w mg shut interval s' ping' (sent @ [nonce]) answered"
| read_quiet: "ping_trace w mg shut interval s (cm_ping c) sent answered \<Longrightarrow>
     note_message (m :: 'tx network_message) now c = Some c' \<Longrightarrow> cm_ping c' = cm_ping c \<Longrightarrow>
     ping_trace w mg shut interval s (cm_ping c') sent answered"
| read_pong: "ping_trace w mg shut interval s (cm_ping c) sent answered \<Longrightarrow>
     note_message (Pong n :: 'tx network_message) now c = Some c' \<Longrightarrow> cm_ping c' \<noteq> cm_ping c \<Longrightarrow>
     ping_trace w mg shut interval s (cm_ping c') sent (answered @ [n])"

lemma writer_round_ping:
  assumes "writer_round w mg shut interval msg now nonce (s, ping) = Running (s', ping')" "ping' \<noteq> ping"
  shows "\<exists>since. ping = LastReceived since \<and> ping' = Waiting nonce now \<and> interval < now - since"
  using assms
  by (auto simp: writer_round_def Let_def split: option.splits sum.splits outbound_ping.splits if_splits)

lemma note_message_ping:
  assumes "note_message m now c = Some c'" "cm_ping c' \<noteq> cm_ping c"
  shows "\<exists>n since. m = Pong n \<and> cm_ping c = Waiting n since \<and> cm_ping c' = LastReceived now"
  using assms
  by (cases m) (auto simp: note_message_def split: outbound_ping.splits if_splits)

lemma ping_trace_outstanding:
  "ping_trace w mg shut interval s ping sent answered \<Longrightarrow>
     sent = answered @ (case ping of Waiting n _ \<Rightarrow> [n] | LastReceived _ \<Rightarrow> [])"
proof (induction rule: ping_trace.induct)
  case (ping_round s ping sent answered msg now nonce s' ping')
  then show ?case using writer_round_ping by fastforce
next
  case (read_pong s c sent answered n now c')
  then show ?case using note_message_ping by fastforce
qed simp_all

section \<open>Properties\<close>

text \<open>
  C17: Messages written one after the other to a stream are read back one by one, in order,
  and the reader stops exactly where the last one ends; a frame with another network's
  magic is refused with that magic.
\<close>

theorem message_stream_roundtrip:
  assumes "wire_ok w M" "set ms \<subseteq> M" "m \<in> M" "write_failure s = None" "mg' \<noteq> mg"
  shows "\<exists>s'. write_messages w mg ms s = Inr s'
     \<and> (\<forall>r rest. incoming r = drop (length (outgoing s)) (outgoing s') @ rest \<longrightarrow>
          read_count w mg (length ms) r = Inr (map Some ms, r\<lparr>incoming := rest\<rparr>))
     \<and> (\<forall>r rest. incoming r = enc_raw w mg' m @ rest \<longrightarrow>
          transport_read w mg r = Inl (UnexpectedMagic mg'))"
  using read_count_enc [OF assms(1,2)] transport_read_enc [OF assms(1,3)] assms(4,5)
  by (simp add: write_messages_ok)

lemma handshake_success:
  assumes "wire_ok w M" "set ms \<subseteq> M" "\<forall>m \<in> set ms. negotiable m" "Verack \<in> M" "Version v \<in> M"
    and "write_failure s = None"
    and "incoming s = concat (map (enc_raw w (magic_of w (cfg_network c))) (Version v # ms @ [Verack])) @ rest"
    and "start_handshake (has_services w) (command w) c unix_secs (Version v) nonce = Some (Inr (h, suggested))"
  shows "\<exists>metrics s'. handshake w c unix_time unix_secs nonce now s = Some (Inr (metrics, s'))
     \<and> incoming s' = rest
     \<and> cm_feeler metrics = ih_feeler h
     \<and> cm_preferences metrics = announced (ih_preferences h) ms
     \<and> outgoing s' = outgoing s @ concat (map (enc_raw w (magic_of w (cfg_network c)))
         (Version (build_our_version c unix_time nonce) # suggested
          @ [Verack, SendCmpct (ih_send_cmpct h), FeeFilter (ih_fee_filter h)]
          @ (if ih_request_addr h then [GetAddr] else [])))"
proof -
  let ?mg = "magic_of w (cfg_network c)"
  let ?enc = "enc_raw w ?mg"
  let ?ours = "?enc (Version (build_our_version c unix_time nonce))"
  let ?in = "concat (map ?enc ms) @ ?enc Verack @ rest"
  have "write_message w ?mg (Version (build_our_version c unix_time nonce)) s
      = Inr (s\<lparr>outgoing := outgoing s @ ?ours\<rparr>)"
    using assms(6) by (simp add: write_message_def tcp_write_all_ok)
  moreover have "transport_read w ?mg (s\<lparr>outgoing := outgoing s @ ?ours\<rparr>)
      = Inr (Some (Version v), s\<lparr>outgoing := outgoing s @ ?ours, incoming := ?in\<rparr>)"
    by (subst transport_read_enc [OF assms(1,5), where rest = ?in and mg' = ?mg]) (simp_all add: assms(7))
  ultimately show ?thesis
    using assms(6,8)
      negotiate_loop_verack [OF assms(1-4), of "s\<lparr>incoming := ?in,
        outgoing := outgoing s @ ?ours @ concat (map ?enc suggested)\<rparr>" ?mg rest h]
    by (simp add: handshake_def Let_def write_messages_ok del: write_messages.simps)
qed

text \<open>
  C10: The handshake on a whole stream: when the peer sends an acceptable version, any
  announcements in any order and a verack, the handshake completes.  It has consumed
  exactly those messages, its metrics hold the peer's data and precisely the preferences
  announced, and it has written our version, the suggested messages, verack, sendcmpct,
  feefilter and, if asked for, getaddr.
\<close>

theorem handshake_completes:
  assumes "wire_ok w M" "set ms \<subseteq> M" "\<forall>m \<in> set ms. negotiable m" "Verack \<in> M" "Version v \<in> M"
    and "write_failure s = None"
    and "incoming s = concat (map (enc_raw w (magic_of w (cfg_network c))) (Version v # ms @ [Verack])) @ rest"
    and "start_handshake (has_services w) (command w) c unix_secs (Version v) nonce = Some (Inr (h, suggested))"
  shows "\<exists>metrics s'. handshake w c unix_time unix_secs nonce now s = Some (Inr (metrics, s'))
     \<and> incoming s' = rest
     \<and> cm_feeler metrics = ih_feeler h
     \<and> cm_preferences metrics = announced (ih_preferences h) ms
     \<and> outgoing s' = outgoing s @ concat (map (enc_raw w (magic_of w (cfg_network c)))
         (Version (build_our_version c unix_time nonce) # suggested
          @ [Verack, SendCmpct (ih_send_cmpct h), FeeFilter (ih_fee_filter h)]
          @ (if ih_request_addr h then [GetAddr] else [])))"
  by (rule handshake_success [OF assms])



section \<open>Witnesses\<close>

text \<open>A toy encoding of a few messages: 24 header bytes with the magic in front, then a tag.\<close>

definition demo_tag :: "unit network_message \<Rightarrow> u8" where
  "demo_tag m = (case m of Version _ \<Rightarrow> 1 | Verack \<Rightarrow> 2 | SendAddrV2 \<Rightarrow> 3 | _ \<Rightarrow> 0)"

definition demo_wire :: "unit wire" where
  "demo_wire = \<lparr>
     enc_raw = (\<lambda>mg m. to_le_bytes mg @ replicate 20 0 @ [demo_tag m]),
     dec_header = (\<lambda>bs. Inr (from_le_bytes (take 4 bs), 1)),
     dec_raw = (\<lambda>bs. if bs ! 24 = 1 then Inr (Version demo_version) else if bs ! 24 = 2 then Inr Verack
                     else if bs ! 24 = 3 then Inr SendAddrV2 else Inl ''unknown''),
     magic_of = (\<lambda>n. 7), has_services = demo_has, command = demo_command\<rparr>"

definition demo_messages :: "unit network_message set" where
  "demo_messages = {Version demo_version, Verack, SendAddrV2}"

lemma demo_wire_ok: "wire_ok demo_wire demo_messages"
  by (auto simp: wire_ok_def demo_wire_def demo_messages_def demo_tag_def nth_append)

definition demo_stream :: "u8 list \<Rightarrow> tcp_stream" where
  "demo_stream bs = \<lparr>incoming = bs, read_failure = UnexpectedEof, outgoing = [], write_failure = None,
     read_timeout = None, write_timeout = None\<rparr>"

theorem message_stream_roundtrip_witness:
  "\<exists>s'. write_messages demo_wire 7 [Verack, SendAddrV2] (demo_stream []) = Inr s'
     \<and> read_count demo_wire 7 2 (demo_stream (outgoing s')) = Inr ([Some Verack, Some SendAddrV2], demo_stream [])"
  using message_stream_roundtrip [OF demo_wire_ok, of "[Verack, SendAddrV2]" Verack "demo_stream []" 8 7]
  by (fastforce simp: demo_messages_def demo_stream_def numeral_2_eq_2)

lemma demo_start:
  "start_handshake (has_services demo_wire) (command demo_wire) config_new 1700000003 (Version demo_version) 7
     = Some (Inr (\<lparr>ih_feeler = \<lparr>effective_version = 70016, fd_services = 9, net_time_difference = 3,
         reported_height = 800000, fd_nonce = 7\<rparr>, ih_preferences = preferences_new, ih_fee_filter = 0,
         ih_send_cmpct = \<lparr>send_compact = False, cmpct_version = 0\<rparr>, ih_request_addr = False\<rparr>,
       [WtxidRelay, SendAddrV2, SendHeaders]))"
  by (simp add: start_handshake_def demo_wire_def demo_version_def config_new_def wtxid_relay_version_def
      min_peer_proto_version_def sendheaders_version_def demo_has_def checked_sub_i64_def)

theorem handshake_completes_witness:
  "\<exists>metrics s'. handshake demo_wire config_new 0 1700000003 7 5
       (demo_stream (concat (map (enc_raw demo_wire 7) [Version demo_version, SendAddrV2, Verack]) @ [42]))
       = Some (Inr (metrics, s'))
     \<and> incoming s' = [42] \<and> pref_sendaddrv2 (cm_preferences metrics)"
proof -
  have magic: "magic_of demo_wire (cfg_network config_new) = 7" by (simp add: demo_wire_def)
  have "\<forall>m \<in> set [SendAddrV2 :: unit network_message]. negotiable m" "set [SendAddrV2] \<subseteq> demo_messages"
    "Verack \<in> demo_messages" "Version demo_version \<in> demo_messages"
    by (simp_all add: negotiable_def demo_messages_def)
  from handshake_completes [OF demo_wire_ok this(2,1,3,4) _ _ demo_start, of "demo_stream (concat (map
      (enc_raw demo_wire 7) [Version demo_version, SendAddrV2, Verack]) @ [42])" "[42]" 0 5, unfolded magic]
  obtain metrics s' where "handshake demo_wire config_new 0 1700000003 7 5
       (demo_stream (concat (map (enc_raw demo_wire 7) [Version demo_version, SendAddrV2, Verack]) @ [42]))
       = Some (Inr (metrics, s'))" "incoming s' = [42]"
    "cm_preferences metrics = announced preferences_new [SendAddrV2 :: unit network_message]"
    by (auto simp: demo_stream_def)
  then show ?thesis by (auto simp: announced_def)
qed

definition demo_metrics :: connection_metrics where
  "demo_metrics = \<lparr>cm_feeler = \<lparr>effective_version = 70016, fd_services = 9, net_time_difference = 3,
     reported_height = 800000, fd_nonce = 7\<rparr>, cm_preferences = preferences_new,
     cm_timed = timed_messages_new 5, cm_start = 5, cm_ping = LastReceived 5\<rparr>"



end
