(* ===== verification/Peer.thy ===== *)
theory Peer
  imports Download Connection
begin

text \<open>
  The per-peer state machine of src/net/peer.rs: block locators, building the download
  queue, \<open>process_message\<close>, stall detection and the step that a peer thread repeats.
  The chainstate is the kernel library's: its operations are the fields of a record
  \<open>kernel\<close> over opaque types of chainstates, block tree entries and blocks, and
  \<open>kernel_ok\<close> states the documented behaviour that theorems rely on.  A panic (a failed
  \<open>unwrap\<close>, \<open>expect\<close> or \<open>assert\<close>, an integer overflow) is the value \<open>None\<close>, and
  so is a loop that does not end.
\<close>

record ('c, 'e, 'tx, 'b) kernel =
  process_block_header :: "header \<Rightarrow> 'c \<Rightarrow> bool \<times> 'c"
  best_entry :: "'c \<Rightarrow> 'e option"
  active_tip :: "'c \<Rightarrow> 'e"
  active_contains :: "'c \<Rightarrow> 'e \<Rightarrow> bool"
  get_block_tree_entry :: "'c \<Rightarrow> block_hash \<Rightarrow> 'e option"
  entry_height :: "'e \<Rightarrow> int"
  entry_prev :: "'e \<Rightarrow> 'e option"
  entry_ancestor :: "'e \<Rightarrow> int \<Rightarrow> 'e option"
  entry_hash :: "'e \<Rightarrow> block_hash"
  header_hash :: "header \<Rightarrow> block_hash"
  to_kernel_block :: "'tx block \<Rightarrow> 'b option"
  kernel_block_hash :: "'b \<Rightarrow> block_hash"

record ('c, 'b) node_state =
  chainman :: 'c
  download :: "'b download_state"
  addr_sent :: "(addr_v2 \<times> addr_v2_message list) list"
  addr_open :: bool

definition is_on_active_chain :: "('c, 'e, 'tx, 'b) kernel \<Rightarrow> 'c \<Rightarrow> block_hash \<Rightarrow> bool" where
  "is_on_active_chain K c h =
     (case get_block_tree_entry K c h of Some e \<Rightarrow> active_contains K c e | None \<Rightarrow> False)"

definition node_buffer_block :: "block_hash \<Rightarrow> 'b \<Rightarrow> ('c, 'b) node_state \<Rightarrow> ('c, 'b) node_state" where
  "node_buffer_block prev b ns = ns\<lparr>download := buffer_block prev b (download ns)\<rparr>"

definition node_take_connectable ::
    "('c, 'e, 'tx, 'b) kernel \<Rightarrow> block_hash list \<Rightarrow> ('c, 'b) node_state \<Rightarrow> 'b option \<times> ('c, 'b) node_state" where
  "node_take_connectable K order ns =
     (case take_connectable (kernel_block_hash K) order (is_on_active_chain K (chainman ns)) (download ns) of
        (b, d) \<Rightarrow> (b, ns\<lparr>download := d\<rparr>))"

text \<open>
  \<open>wait_for_connectable\<close>: one attempt, a wait during which other threads may change the
  state (\<open>woken\<close> is the state when the lock is held again), a second attempt.
\<close>

definition wait_for_connectable ::
    "('c, 'e, 'tx, 'b) kernel \<Rightarrow> block_hash list \<Rightarrow> block_hash list \<Rightarrow> ('c, 'b) node_state \<Rightarrow> ('c, 'b) node_state
       \<Rightarrow> 'b option \<times> ('c, 'b) node_state" where
  "wait_for_connectable K order order' ns woken =
     (case node_take_connectable K order ns of
        (Some b, ns) \<Rightarrow> (Some b, ns)
      | (None, _) \<Rightarrow> node_take_connectable K order' woken)"

section \<open>Block locators\<close>

definition checked_i32 :: "int \<Rightarrow> int option" where
  "checked_i32 x = (if - (2 ^ 31) \<le> x \<and> x < 2 ^ 31 then Some x else None)"

function locator_loop ::
    "('c, 'e, 'tx, 'b) kernel \<Rightarrow> 'e \<Rightarrow> block_hash list \<Rightarrow> int \<Rightarrow> int \<Rightarrow> block_hash list option" where
  "locator_loop K tip locators current step =
     (case entry_ancestor K tip current of
        None \<Rightarrow> None
      | Some entry \<Rightarrow>
          (if current = 0 \<or> length (locators @ [entry_hash K entry]) \<ge> 101
           then Some (locators @ [entry_hash K entry])
           else
             case checked_i32 (current - step) of
               None \<Rightarrow> None
             | Some next \<Rightarrow>
                 (if length (locators @ [entry_hash K entry]) > 10 then
                    (case checked_i32 (step * 2) of
                       None \<Rightarrow> None
                     | Some step \<Rightarrow> locator_loop K tip (locators @ [entry_hash K entry]) (max next 0) step)
                  else locator_loop K tip (locators @ [entry_hash K entry]) (max next 0) step)))"
  by pat_completeness auto
termination
  by (relation "measure (\<lambda>(K, tip, locators, current, step). 101 - length locators)") auto

declare locator_loop.simps [simp del]

definition build_block_locators :: "('c, 'e, 'tx, 'b) kernel \<Rightarrow> 'e \<Rightarrow> block_hash list option" where
  "build_block_locators K tip =
     (if 0 \<le> entry_height K tip then locator_loop K tip [] (entry_height K tip) 1 else None)"

section \<open>The download queue\<close>

text \<open>
  The walk from the best header back to the active chain.  \<open>Some None\<close>: the walk fell
  off the tree.
\<close>

partial_function (option) walk_back ::
    "('c, 'e, 'tx, 'b) kernel \<Rightarrow> 'c \<Rightarrow> 'e \<Rightarrow> block_hash list \<Rightarrow> block_hash list option option" where
  "walk_back K c current hashes =
     (if active_contains K c current then Some (Some hashes)
      else case entry_prev K current of
             Some prev \<Rightarrow> walk_back K c prev (hashes @ [entry_hash K current])
           | None \<Rightarrow> Some None)"

definition populate_download_queue ::
    "('c, 'e, 'tx, 'b) kernel \<Rightarrow> 'c \<Rightarrow> 'b download_state \<Rightarrow> 'b download_state option" where
  "populate_download_queue K c d =
     (if queue d \<noteq> [] then Some d
      else case best_entry K c of
             None \<Rightarrow> Some d
           | Some best \<Rightarrow>
               (case walk_back K c best [] of
                  None \<Rightarrow> None
                | Some None \<Rightarrow> Some d
                | Some (Some hashes) \<Rightarrow>
                    (if hashes = [] then Some d
                     else let queued = filter (\<lambda>h. h \<notin> buffered_hashes (kernel_block_hash K) d \<and> h \<notin> in_flight d)
                                         (rev hashes)
                          in if queued = [] then Some d else Some (d\<lparr>queue := queued\<rparr>))))"

section \<open>Messages\<close>

definition protocol_version :: u32 where "protocol_version = 70015"
definition download_batch_size :: nat where "download_batch_size = 16"
definition peer_stall_timeout :: duration where "peer_stall_timeout = from_secs 30"

definition create_getheaders_message :: "block_hash list \<Rightarrow> 'tx network_message" where
  "create_getheaders_message locators =
     GetHeaders \<lparr>gl_version = protocol_version, locator_hashes = locators, stop_hash = 0\<rparr>"

definition create_getblocks_message :: "block_hash list \<Rightarrow> 'tx network_message" where
  "create_getblocks_message locators =
     GetBlocks \<lparr>gl_version = protocol_version, locator_hashes = locators, stop_hash = 0\<rparr>"

definition create_getdata_message :: "block_hash list \<Rightarrow> 'tx network_message" where
  "create_getdata_message hashes = GetData (map InvWitnessBlock hashes)"

datatype peer_state_machine = AwaitingHeaders | AwaitingInv | AwaitingBlock "block_hash set"

text \<open>The header loop of \<open>AwaitingHeaders\<close>: stop at the first header the kernel rejects.\<close>

fun process_headers :: "('c, 'e, 'tx, 'b) kernel \<Rightarrow> header list \<Rightarrow> 'c \<Rightarrow> 'c" where
  "process_headers K [] c = c"
| "process_headers K (h # hs) c =
     (case process_block_header K h c of (valid, c) \<Rightarrow> if valid then process_headers K hs c else c)"

text \<open>The header loop of \<open>AwaitingInv\<close> also collects the accepted hashes.\<close>

fun announce_headers :: "('c, 'e, 'tx, 'b) kernel \<Rightarrow> header list \<Rightarrow> 'c \<Rightarrow> block_hash list \<times> 'c" where
  "announce_headers K [] c = ([], c)"
| "announce_headers K (h # hs) c =
     (case process_block_header K h c of
        (valid, c) \<Rightarrow>
          if valid then (case announce_headers K hs c of (hashes, c) \<Rightarrow> (header_hash K h # hashes, c))
          else ([], c))"

definition request_headers ::
    "('c, 'e, 'tx, 'b) kernel \<Rightarrow> ('c, 'b) node_state
       \<Rightarrow> (peer_state_machine \<times> 'tx network_message list \<times> ('c, 'b) node_state) option" where
  "request_headers K ns =
     (case best_entry K (chainman ns) of
        None \<Rightarrow> None
      | Some best \<Rightarrow>
          map_option (\<lambda>locators. (AwaitingHeaders, [create_getheaders_message locators], ns))
            (build_block_locators K best))"

text \<open>Take the next batch, or ask for an inventory when there is none.\<close>

definition next_batch ::
    "('c, 'e, 'tx, 'b) kernel \<Rightarrow> ('c, 'b) node_state
       \<Rightarrow> (peer_state_machine \<times> 'tx network_message list \<times> ('c, 'b) node_state) option" where
  "next_batch K ns =
     (case pop_batch download_batch_size (download ns) of
        (batch, d) \<Rightarrow>
          (if batch \<noteq> [] then
             Some (AwaitingBlock (set batch), [create_getdata_message batch], ns\<lparr>download := d\<rparr>)
           else
             map_option (\<lambda>locators. (AwaitingInv, [create_getblocks_message locators], ns\<lparr>download := d\<rparr>))
               (build_block_locators K (active_tip K (chainman ns)))))"

definition is_inv_block :: "inventory \<Rightarrow> bool" where
  "is_inv_block i = (case i of InvBlock _ \<Rightarrow> True | _ \<Rightarrow> False)"

definition process_message ::
    "('c, 'e, 'tx, 'b) kernel \<Rightarrow> peer_state_machine \<Rightarrow> 'tx network_message \<Rightarrow> addr_v2 \<Rightarrow> ('c, 'b) node_state
       \<Rightarrow> (peer_state_machine \<times> 'tx network_message list \<times> ('c, 'b) node_state) option" where
  "process_message K sm event src_addr ns =
     (case event of
        Ping nonce \<Rightarrow> Some (sm, [Pong nonce], ns)
      | AddrV2 payload \<Rightarrow>
          Some (sm, [], if addr_open ns then ns\<lparr>addr_sent := addr_sent ns @ [(src_addr, payload)]\<rparr> else ns)
      | _ \<Rightarrow>
      (case sm of
         AwaitingHeaders \<Rightarrow>
           (case event of
              Headers headers \<Rightarrow>
                (let ns = ns\<lparr>chainman := process_headers K headers (chainman ns)\<rparr> in
                 if length headers \<noteq> 2000 then
                   (case populate_download_queue K (chainman ns) (download ns) of
                      None \<Rightarrow> None
                    | Some d \<Rightarrow> next_batch K (ns\<lparr>download := d\<rparr>))
                 else request_headers K ns)
            | _ \<Rightarrow> Some (AwaitingHeaders, [], ns))
       | AwaitingInv \<Rightarrow>
           (case event of
              Headers headers \<Rightarrow>
                (case announce_headers K headers (chainman ns) of
                   (hashes, c) \<Rightarrow>
                     (let ns = ns\<lparr>chainman := c\<rparr> in
                      if hashes = [] then request_headers K ns
                      else
                        (case claim hashes (download ns) of
                           (claimed, d) \<Rightarrow>
                             (let ns = ns\<lparr>download := d\<rparr> in
                              if claimed = [] then Some (AwaitingInv, [], ns)
                              else Some (AwaitingBlock (set claimed), [create_getdata_message claimed], ns)))))
            | Inv inventory \<Rightarrow>
                (if filter is_inv_block inventory \<noteq> [] then request_headers K ns
                 else Some (AwaitingInv, [], ns))
            | _ \<Rightarrow> Some (AwaitingInv, [], ns))
       | AwaitingBlock peer_inventory \<Rightarrow>
           (case event of
              Block block \<Rightarrow>
                (let hash = header_hash K (blk_header block);
                     prev = prev_blockhash (blk_header block);
                     inventory = peer_inventory - {hash}
                 in case release hash (download ns) of
                      (was_in_flight, d) \<Rightarrow>
                        (let ns = ns\<lparr>download := d\<rparr> in
                         case (if was_in_flight
                               then map_option (\<lambda>b. node_buffer_block prev b ns) (to_kernel_block K block)
                               else Some ns) of
                           None \<Rightarrow> None
                         | Some ns \<Rightarrow>
                             (if inventory = {} then next_batch K ns
                              else Some (AwaitingBlock inventory, [], ns))))
            | _ \<Rightarrow> Some (AwaitingBlock peer_inventory, [], ns))))"

section \<open>A peer\<close>

definition stalled :: "peer_state_machine \<Rightarrow> instant \<Rightarrow> instant \<Rightarrow> bool" where
  "stalled sm last_progress now \<longleftrightarrow> sm \<noteq> AwaitingInv \<and> now - last_progress > peer_stall_timeout"

definition delivers_requested_block ::
    "('c, 'e, 'tx, 'b) kernel \<Rightarrow> peer_state_machine \<Rightarrow> 'tx network_message \<Rightarrow> bool" where
  "delivers_requested_block K sm msg =
     (case (sm, msg) of
        (AwaitingBlock inventory, Block block) \<Rightarrow> header_hash K (blk_header block) \<in> inventory
      | _ \<Rightarrow> False)"

definition is_request :: "'tx network_message \<Rightarrow> bool" where
  "is_request m = (case m of GetHeaders _ \<Rightarrow> True | GetData _ \<Rightarrow> True | _ \<Rightarrow> False)"

text \<open>A peer: its destination, state machine, time of the last progress, and what its writer was given.\<close>

record 'tx bitcoin_peer =
  peer_addr :: addr_v2
  state_machine :: peer_state_machine
  last_progress :: instant
  to_writer :: "'tx network_message list"
  writer_open :: bool

definition is_stalled :: "'tx bitcoin_peer \<Rightarrow> instant \<Rightarrow> bool" where
  "is_stalled p now = stalled (state_machine p) (last_progress p) now"

text \<open>\<open>order\<close> is the iteration order of the peer's inventory.\<close>

definition release_in_flight :: "block_hash list \<Rightarrow> 'tx bitcoin_peer \<Rightarrow> 'b download_state \<Rightarrow> 'b download_state" where
  "release_in_flight order p d =
     (case state_machine p of AwaitingBlock _ \<Rightarrow> requeue_unreceived order d | _ \<Rightarrow> d)"

text \<open>
  \<open>msg\<close> is what the reader returned.  Sending to a closed writer is an error; the state
  machine has advanced by then.
\<close>

definition receive_and_process_message ::
    "('c, 'e, 'tx, 'b) kernel \<Rightarrow> instant \<Rightarrow> net_error + 'tx network_message \<Rightarrow> 'tx bitcoin_peer \<Rightarrow> ('c, 'b) node_state
       \<Rightarrow> ((net_error + unit) \<times> 'tx bitcoin_peer \<times> ('c, 'b) node_state) option" where
  "receive_and_process_message K now msg p ns =
     (case msg of
        Inl e \<Rightarrow> Some (Inl e, p, ns)
      | Inr m \<Rightarrow>
          map_option (\<lambda>(sm, messages, ns).
            let p1 = p\<lparr>state_machine := sm\<rparr>;
                p2 = (if delivers_requested_block K (state_machine p) m \<or> (\<exists>x \<in> set messages. is_request x)
                      then p1\<lparr>last_progress := now\<rparr> else p1)
            in if messages = [] then (Inr (), p2, ns)
               else if writer_open p then (Inr (), p2\<lparr>to_writer := to_writer p @ messages\<rparr>, ns)
               else (Inl ChannelClosed, p2, ns))
            (process_message K (state_machine p) m (peer_addr p) ns))"

section \<open>The heights of a locator\<close>

text \<open>How far below the tip the \<open>k\<close>-th locator entry lies.\<close>

definition locator_offset :: "nat \<Rightarrow> int" where
  "locator_offset k = (if k \<le> 10 then int k else 9 + 2 ^ (k - 10))"

definition locator_height :: "int \<Rightarrow> nat \<Rightarrow> int" where
  "locator_height h k = max 0 (h - locator_offset k)"

lemma locator_offset_Suc: "locator_offset (Suc k) = locator_offset k + 2 ^ (k - 10)"
proof (cases "k \<le> 9")
  case True
  then show ?thesis by (simp add: locator_offset_def)
next
  case False
  then obtain j where "k = 10 + j" using le_Suc_ex [of 10 k] by auto
  then show ?thesis by (cases j) (simp_all add: locator_offset_def)
qed

lemma locator_offset_mono: "j < k \<Longrightarrow> locator_offset j < locator_offset k"
  by (rule lift_Suc_mono_less [where f = locator_offset]) (simp_all add: locator_offset_Suc)

text \<open>The index of the entry for the genesis block.\<close>

definition locator_last :: "int \<Rightarrow> nat" where
  "locator_last h = (LEAST k. h \<le> locator_offset k)"

lemma locator_offset_unbounded: "\<exists>k. h \<le> locator_offset k"
proof -
  have "int k \<le> locator_offset k" for k
  proof (induction k)
    case 0
    then show ?case by (simp add: locator_offset_def)
  next
    case (Suc k)
    have "(1 :: int) \<le> 2 ^ (k - 10)" by simp
    with Suc show ?case unfolding locator_offset_Suc by linarith
  qed
  from this [of "nat h"] have "h \<le> locator_offset (nat h)" by linarith
  then show ?thesis by blast
qed

lemma locator_last_reaches: "h \<le> locator_offset (locator_last h)"
  unfolding locator_last_def using locator_offset_unbounded by (rule LeastI_ex)

lemma locator_last_first: "k < locator_last h \<Longrightarrow> locator_offset k < h"
  unfolding locator_last_def by (meson not_le not_less_Least)

lemma locator_last_le: "h \<le> locator_offset k \<Longrightarrow> locator_last h \<le> k"
  unfolding locator_last_def by (rule Least_le)

definition has_ancestors :: "('c, 'e, 'tx, 'b) kernel \<Rightarrow> 'e \<Rightarrow> bool" where
  "has_ancestors K e \<longleftrightarrow> (\<forall>h. 0 \<le> h \<and> h \<le> entry_height K e \<longrightarrow> entry_ancestor K e h \<noteq> None)"

definition hash_at :: "('c, 'e, 'tx, 'b) kernel \<Rightarrow> 'e \<Rightarrow> int \<Rightarrow> block_hash" where
  "hash_at K tip h = entry_hash K (the (entry_ancestor K tip h))"

definition locator_prefix :: "('c, 'e, 'tx, 'b) kernel \<Rightarrow> 'e \<Rightarrow> nat \<Rightarrow> block_hash list" where
  "locator_prefix K tip k = map (\<lambda>i. hash_at K tip (locator_height (entry_height K tip) i)) [0..<k]"

lemma checked_i32_sub:
  "0 < x \<Longrightarrow> x \<le> 2 ^ 29 \<Longrightarrow> 0 < c \<Longrightarrow> c \<le> h \<Longrightarrow> h < 2 ^ 31 \<Longrightarrow> checked_i32 (c - x) = Some (c - x)"
  by (simp add: checked_i32_def)

lemma checked_i32_double: "0 < x \<Longrightarrow> x \<le> 2 ^ 29 \<Longrightarrow> checked_i32 (x * 2) = Some (x * 2)"
  by (simp add: checked_i32_def)

lemma locator_step:
  assumes "has_ancestors K tip" "0 \<le> entry_height K tip" "entry_height K tip < 2 ^ 31"
    and "k < 40" "locator_offset k < entry_height K tip"
  shows "locator_loop K tip (locator_prefix K tip k) (locator_height (entry_height K tip) k) (2 ^ (k - 10))
       = locator_loop K tip (locator_prefix K tip (Suc k)) (locator_height (entry_height K tip) (Suc k)) (2 ^ (Suc k - 10))"
proof -
  let ?h = "entry_height K tip"
  let ?cur = "locator_height ?h k"
  have cur: "?cur = ?h - locator_offset k" "0 < ?cur" "?cur \<le> ?h"
    using assms(5) by (simp_all add: locator_height_def locator_offset_def)
  obtain e where e: "entry_ancestor K tip ?cur = Some e"
    using assms(1) cur(2,3) unfolding has_ancestors_def by (meson not_None_eq order_less_imp_le)
  then have prefix: "locator_prefix K tip k @ [entry_hash K e] = locator_prefix K tip (Suc k)"
    by (simp add: locator_prefix_def hash_at_def)
  have len: "length (locator_prefix K tip (Suc k)) = Suc k" by (simp add: locator_prefix_def)
  have pow: "(2 :: int) ^ (k - 10) \<le> 2 ^ 29"
    using assms(4) by (intro power_increasing) auto
  have chk: "checked_i32 (?cur - 2 ^ (k - 10)) = Some (?cur - 2 ^ (k - 10))"
    by (rule checked_i32_sub [OF _ pow cur(2,3) assms(3)]) simp
  have nxt: "max (?cur - 2 ^ (k - 10)) 0 = locator_height ?h (Suc k)"
    using cur(1) by (simp add: locator_height_def locator_offset_Suc)
  have dbl: "checked_i32 (2 ^ (k - 10) * 2) = Some (2 ^ (k - 10) * 2)"
    by (rule checked_i32_double [OF _ pow]) simp
  have pow2: "(if Suc k > 10 then 2 ^ (k - 10) * 2 else 2 ^ (k - 10)) = (2 :: int) ^ (Suc k - 10)"
  proof (cases "k \<le> 9")
    case False
    then obtain j where "k = 10 + j" using le_Suc_ex [of 10 k] by auto
    then show ?thesis by simp
  qed simp
  show ?thesis
    using cur(2) assms(4) pow2 nxt
    by (subst locator_loop.simps) (auto simp: e prefix len chk dbl split: if_splits)
qed

lemma locator_loop_reaches:
  assumes "has_ancestors K tip" "0 \<le> entry_height K tip" "entry_height K tip < 2 ^ 31"
    and "k \<le> 40" "k \<le> locator_last (entry_height K tip)"
  shows "build_block_locators K tip
       = locator_loop K tip (locator_prefix K tip k) (locator_height (entry_height K tip) k) (2 ^ (k - 10))"
  using assms(4,5)
proof (induction k)
  case 0
  then show ?case
    using assms(2) by (simp add: build_block_locators_def locator_prefix_def locator_height_def locator_offset_def)
next
  case (Suc k)
  then show ?case
    using locator_step [OF assms(1-3), of k] locator_last_first [of k "entry_height K tip"] by simp
qed

lemma build_block_locators_ok:
  assumes "has_ancestors K tip" "0 \<le> entry_height K tip" "entry_height K tip \<le> 2 ^ 30 + 9"
  shows "build_block_locators K tip = Some (locator_prefix K tip (Suc (locator_last (entry_height K tip))))"
    and "locator_last (entry_height K tip) \<le> 40"
proof -
  let ?h = "entry_height K tip"
  let ?n = "locator_last ?h"
  have "?h \<le> locator_offset 40" using assms(3) by (simp add: locator_offset_def)
  then show n: "?n \<le> 40" by (rule locator_last_le)
  have "locator_height ?h ?n = 0"
    using locator_last_reaches [of ?h] by (simp add: locator_height_def)
  moreover obtain e where e: "entry_ancestor K tip 0 = Some e"
    using assms(1,2) by (auto simp: has_ancestors_def)
  ultimately have "locator_loop K tip (locator_prefix K tip ?n) (locator_height ?h ?n) (2 ^ (?n - 10))
      = Some (locator_prefix K tip (Suc ?n))"
    by (subst locator_loop.simps) (simp add: locator_prefix_def hash_at_def)
  then show "build_block_locators K tip = Some (locator_prefix K tip (Suc ?n))"
    using locator_loop_reaches [OF assms(1,2) _ n] assms(3) by simp
qed

lemma build_block_locators_overflow:
  assumes "has_ancestors K tip" "2 ^ 30 + 9 < entry_height K tip" "entry_height K tip < 2 ^ 31"
  shows "build_block_locators K tip = None"
proof -
  let ?h = "entry_height K tip"
  have last: "40 < locator_last ?h"
  proof (rule ccontr)
    assume "\<not> 40 < locator_last ?h"
    then have "locator_offset (locator_last ?h) \<le> locator_offset 40"
      using locator_offset_mono [of "locator_last ?h" 40] by (cases "locator_last ?h = 40") auto
    then show False using locator_last_reaches [of ?h] assms(2) by (simp add: locator_offset_def)
  qed
  have cur: "locator_height ?h 40 = ?h - (9 + 2 ^ 30)"
    using assms(2) by (simp add: locator_height_def locator_offset_def)
  then have "0 \<le> locator_height ?h 40" "locator_height ?h 40 \<le> ?h" using assms(2) by auto
  then obtain e where e: "entry_ancestor K tip (locator_height ?h 40) = Some e"
    using assms(1) unfolding has_ancestors_def by blast
  have "build_block_locators K tip = locator_loop K tip (locator_prefix K tip 40) (locator_height ?h 40) (2 ^ 30)"
    using locator_loop_reaches [OF assms(1) _ assms(3), of 40] last assms(2) by simp
  also have "\<dots> = None"
    using e cur assms(2,3) by (subst locator_loop.simps) (simp add: locator_prefix_def checked_i32_def)
  finally show ?thesis .
qed

section \<open>What the kernel library promises\<close>

text \<open>
  \<open>ok\<close> holds of the chainstates that can occur.  Heights are those of a block tree:
  never negative, far below the 32-bit limit, one less at the parent; every height below an
  entry has an ancestor; an entry without a parent is the genesis block, which is on the
  active chain; a block of the wire converts to a kernel block with the same hash.
\<close>

definition kernel_ok :: "('c, 'e, 'tx, 'b) kernel \<Rightarrow> ('c \<Rightarrow> bool) \<Rightarrow> bool" where
  "kernel_ok K ok \<longleftrightarrow>
     (\<forall>c hdr. ok c \<longrightarrow> ok (snd (process_block_header K hdr c)))
     \<and> (\<forall>c. ok c \<longrightarrow> best_entry K c \<noteq> None)
     \<and> (\<forall>c e. ok c \<longrightarrow> entry_prev K e = None \<longrightarrow> active_contains K c e)
     \<and> (\<forall>e. 0 \<le> entry_height K e \<and> entry_height K e \<le> 2 ^ 30 \<and> has_ancestors K e)
     \<and> (\<forall>e p. entry_prev K e = Some p \<longrightarrow> entry_height K p = entry_height K e - 1)
     \<and> (\<forall>b. \<exists>kb. to_kernel_block K b = Some kb \<and> kernel_block_hash K kb = header_hash K (blk_header b))"

lemma kernel_okD:
  assumes "kernel_ok K ok"
  shows "0 \<le> entry_height K e" "entry_height K e \<le> 2 ^ 30" "has_ancestors K e"
    "entry_prev K e = Some p \<Longrightarrow> entry_height K p = entry_height K e - 1"
    "\<exists>kb. to_kernel_block K b = Some kb \<and> kernel_block_hash K kb = header_hash K (blk_header b)"
  using assms unfolding kernel_ok_def by blast+

lemma kernel_ok_locators:
  assumes "kernel_ok K ok"
  shows "\<exists>locators. build_block_locators K e = Some locators \<and> length locators \<le> 41"
proof -
  have e: "has_ancestors K e" "0 \<le> entry_height K e" "entry_height K e \<le> 2 ^ 30 + 9"
    using assms by (auto simp: kernel_ok_def intro: order_trans)
  show ?thesis
    using build_block_locators_ok [OF e] by (simp add: locator_prefix_def)
qed

lemma kernel_ok_headers: "kernel_ok K ok \<Longrightarrow> ok c \<Longrightarrow> ok (process_headers K hs c)"
proof (induction hs arbitrary: c)
  case (Cons h hs)
  then have "ok (snd (process_block_header K h c))" by (simp add: kernel_ok_def)
  then show ?case using Cons by (auto split: prod.split)
qed simp

lemma kernel_ok_announce: "kernel_ok K ok \<Longrightarrow> ok c \<Longrightarrow> ok (snd (announce_headers K hs c))"
proof (induction hs arbitrary: c)
  case (Cons h hs)
  then have *: "ok (snd (process_block_header K h c))" by (simp add: kernel_ok_def)
  show ?case using Cons.IH [OF Cons.prems(1) *] * by (auto split: prod.splits)
qed simp

definition linked :: "('c, 'e, 'tx, 'b) kernel \<Rightarrow> 'e list \<Rightarrow> bool" where
  "linked K es = successively (\<lambda>a b. entry_prev K a = Some b) es"

lemma walk_back_spec:
  assumes "kernel_ok K ok" "ok c"
  shows "\<exists>es fork. walk_back K c e hashes = Some (Some (hashes @ map (entry_hash K) es))
     \<and> linked K (es @ [fork]) \<and> hd (es @ [fork]) = e \<and> active_contains K c fork
     \<and> (\<forall>x \<in> set es. \<not> active_contains K c x)"
proof (induction "nat (entry_height K e)" arbitrary: e hashes rule: less_induct)
  case less
  show ?case
  proof (cases "active_contains K c e")
    case True
    then show ?thesis
      by (intro exI [of _ "[]"] exI [of _ e]) (simp add: walk_back.simps [of K c e] linked_def)
  next
    case False
    then obtain p where p: "entry_prev K e = Some p"
      by (cases "entry_prev K e") (use assms in \<open>auto simp: kernel_ok_def\<close>)
    have "nat (entry_height K p) < nat (entry_height K e)"
      using kernel_okD(4) [OF assms(1) p] kernel_okD(1) [OF assms(1), of p] by linarith
    from less [OF this, of "hashes @ [entry_hash K e]"] obtain es fork where
      IH: "walk_back K c p (hashes @ [entry_hash K e]) = Some (Some ((hashes @ [entry_hash K e]) @ map (entry_hash K) es))"
      "linked K (es @ [fork])" "hd (es @ [fork]) = p" "active_contains K c fork"
      "\<forall>x \<in> set es. \<not> active_contains K c x" by blast
    have "linked K ((e # es) @ [fork])"
      using IH(2,3) p by (cases "es @ [fork]") (simp_all add: linked_def)
    then show ?thesis
      using IH False p
      by (intro exI [of _ "e # es"] exI [of _ fork]) (simp add: walk_back.simps [of K c e])
  qed
qed

lemma populate_cases:
  assumes "kernel_ok K ok" "ok c"
  shows "\<exists>q. populate_download_queue K c d = Some (d\<lparr>queue := q\<rparr>) \<and> (queue d \<noteq> [] \<longrightarrow> q = queue d)"
proof -
  obtain best where best: "best_entry K c = Some best"
    using assms by (auto simp: kernel_ok_def)
  obtain hashes where "walk_back K c best [] = Some (Some hashes)"
    using walk_back_spec [OF assms, of best "[]"] by auto
  then show ?thesis
    using best by (cases d) (auto simp: populate_download_queue_def Let_def)
qed

lemma next_batch_total:
  assumes "kernel_ok K ok"
  shows "\<exists>sm msgs d. next_batch K ns = Some (sm, msgs, ns\<lparr>download := d\<rparr>)
     \<and> (\<exists>batch. pop_batch 16 (download ns) = (batch, d)
         \<and> ((batch \<noteq> [] \<and> sm = AwaitingBlock (set batch) \<and> msgs = [create_getdata_message batch])
          \<or> (batch = [] \<and> sm = AwaitingInv \<and> (\<exists>l. msgs = [create_getblocks_message l] \<and> length l \<le> 41))))"
proof -
  obtain batch d where pop: "pop_batch 16 (download ns) = (batch, d)" by fastforce
  obtain l where "build_block_locators K (active_tip K (chainman ns)) = Some l" "length l \<le> 41"
    using kernel_ok_locators [OF assms] by blast
  then show ?thesis
    using pop by (auto simp: next_batch_def download_batch_size_def)
qed

lemma request_headers_total:
  assumes "kernel_ok K ok" "ok (chainman ns)"
  shows "\<exists>l. request_headers K ns = Some (AwaitingHeaders, [create_getheaders_message l], ns) \<and> length l \<le> 41"
proof -
  obtain best where "best_entry K (chainman ns) = Some best"
    using assms by (auto simp: kernel_ok_def)
  moreover obtain l where "build_block_locators K best = Some l" "length l \<le> 41"
    using kernel_ok_locators [OF assms(1)] by blast
  ultimately show ?thesis by (auto simp: request_headers_def)
qed

section \<open>The effect of a message\<close>

definition inventory_of :: "peer_state_machine \<Rightarrow> block_hash set" where
  "inventory_of sm = (case sm of AwaitingBlock I \<Rightarrow> I | _ \<Rightarrow> {})"

lemma inventory_of_simps [simp]:
  "inventory_of AwaitingHeaders = {}" "inventory_of AwaitingInv = {}" "inventory_of (AwaitingBlock I) = I"
  by (simp_all add: inventory_of_def)

text \<open>The block a message delivers: one that was in flight.\<close>

definition delivered :: "('c, 'e, 'tx, 'b) kernel \<Rightarrow> peer_state_machine \<Rightarrow> 'tx network_message
     \<Rightarrow> 'b download_state \<Rightarrow> block_hash set" where
  "delivered K sm m d =
     (case (sm, m) of (AwaitingBlock _, Block b) \<Rightarrow> {header_hash K (blk_header b)} \<inter> in_flight d | _ \<Rightarrow> {})"

text \<open>
  How a step may change what is in flight and what is wanted: the peer answers for
  what it was asked for, and only the blocks of \<open>D\<close> stop being wanted.
\<close>

definition fair_step ::
    "block_hash set \<Rightarrow> peer_state_machine \<Rightarrow> 'b download_state \<Rightarrow> peer_state_machine \<Rightarrow> 'b download_state \<Rightarrow> bool" where
  "fair_step D sm d sm' d' \<longleftrightarrow>
     in_flight d' \<subseteq> (in_flight d - inventory_of sm) \<union> inventory_of sm'
     \<and> wanted_blocks d - D \<subseteq> wanted_blocks d'
     \<and> ((\<forall>I. sm = AwaitingBlock I \<longrightarrow> I \<noteq> {}) \<longrightarrow> (\<forall>I. sm' = AwaitingBlock I \<longrightarrow> I \<noteq> {}))"

lemma fair_step_refl: "fair_step {} sm d sm d"
  by (auto simp: fair_step_def)

lemma next_batch_fair:
  assumes "kernel_ok K ok" "in_flight (download ns) \<inter> inventory_of sm = {}"
  shows "\<exists>sm' msgs ns'. next_batch K ns = Some (sm', msgs, ns') \<and> chainman ns' = chainman ns
     \<and> fair_step {} sm (download ns) sm' (download ns') \<and> buffer (download ns') = buffer (download ns)"
proof -
  obtain sm' msgs d batch where nb: "next_batch K ns = Some (sm', msgs, ns\<lparr>download := d\<rparr>)"
    "pop_batch 16 (download ns) = (batch, d)"
    "(batch \<noteq> [] \<and> sm' = AwaitingBlock (set batch)) \<or> (batch = [] \<and> sm' = AwaitingInv)"
    using next_batch_total [OF assms(1), of ns] by blast
  have "in_flight d = in_flight (download ns) \<union> set batch" "wanted_blocks d = wanted_blocks (download ns)"
    using ledger.pop_owed [OF nb(2)] ledger.pop_wanted [OF nb(2)] by simp_all
  then show ?thesis
    using nb(1,3) assms(2) pop_batch_claim(4) [OF nb(2)] by (auto simp: fair_step_def)
qed

lemma fair_step_trans:
  assumes "wanted_blocks d - D \<subseteq> wanted_blocks d1" "in_flight d1 \<subseteq> in_flight d - inventory_of sm"
    and "fair_step {} sm1 d1 sm' d'" "inventory_of sm1 = {}" "\<forall>I. sm1 \<noteq> AwaitingBlock I"
  shows "fair_step D sm d sm' d'"
  using assms unfolding fair_step_def by blast

lemma process_message_headers:
  assumes "kernel_ok K ok" "ok (chainman ns)"
  shows "\<exists>sm' msgs ns'. process_message K AwaitingHeaders (Headers hs) src ns = Some (sm', msgs, ns')
     \<and> ok (chainman ns') \<and> fair_step {} AwaitingHeaders (download ns) sm' (download ns')"
proof -
  let ?ns = "ns\<lparr>chainman := process_headers K hs (chainman ns)\<rparr>"
  have ok: "ok (chainman ?ns)" using kernel_ok_headers [OF assms] by simp
  show ?thesis
  proof (cases "length hs = 2000")
    case True
    then show ?thesis
      using request_headers_total [OF assms(1) ok] ok
      by (auto simp: process_message_def Let_def fair_step_refl)
  next
    case False
    obtain q where q: "populate_download_queue K (chainman ?ns) (download ns) = Some (download ns\<lparr>queue := q\<rparr>)"
      "queue (download ns) \<noteq> [] \<longrightarrow> q = queue (download ns)"
      using populate_cases [OF assms(1) ok, of "download ns"] by auto
    let ?ns1 = "?ns\<lparr>download := download ns\<lparr>queue := q\<rparr>\<rparr>"
    obtain sm' msgs ns' where nb: "next_batch K ?ns1 = Some (sm', msgs, ns')" "chainman ns' = chainman ?ns1"
      "fair_step {} AwaitingHeaders (download ?ns1) sm' (download ns')"
      using next_batch_fair [OF assms(1), of ?ns1 AwaitingHeaders] by auto
    have "fair_step {} AwaitingHeaders (download ns) sm' (download ns')"
      using q(2) by (intro fair_step_trans [OF _ _ nb(3)]) (auto simp: wanted_blocks_def)
    then show ?thesis
      using nb(1,2) q(1) ok False by (auto simp: process_message_def Let_def)
  qed
qed

lemma process_message_announced:
  assumes "kernel_ok K ok" "ok (chainman ns)"
  shows "\<exists>sm' msgs ns'. process_message K AwaitingInv (Headers hs) src ns = Some (sm', msgs, ns')
     \<and> ok (chainman ns') \<and> fair_step {} AwaitingInv (download ns) sm' (download ns')"
proof -
  obtain hashes c where an: "announce_headers K hs (chainman ns) = (hashes, c)" by fastforce
  then have ok: "ok c" using kernel_ok_announce [OF assms, of hs] by simp
  obtain claimed d where cl: "claim hashes (download ns) = (claimed, d)" by fastforce
  have "in_flight d = in_flight (download ns) \<union> set claimed" "wanted_blocks (download ns) \<subseteq> wanted_blocks d"
    using ledger.take_all_owed [OF cl] ledger.take_all_wanted [OF cl] by auto
  then have "fair_step {} AwaitingInv (download ns) (if claimed = [] then AwaitingInv else AwaitingBlock (set claimed)) d"
    by (auto simp: fair_step_def)
  moreover have "fair_step {} AwaitingInv (download ns) AwaitingHeaders (download ns)"
    by (auto simp: fair_step_def)
  ultimately show ?thesis
    using request_headers_total [OF assms(1), of "ns\<lparr>chainman := c\<rparr>"] ok an cl
    by (auto simp: process_message_def Let_def)
qed

lemma process_message_block:
  assumes "kernel_ok K ok" "ok (chainman ns)"
  shows "\<exists>sm' msgs ns'. process_message K (AwaitingBlock I) (Block b) src ns = Some (sm', msgs, ns')
     \<and> ok (chainman ns')
     \<and> fair_step (delivered K (AwaitingBlock I) (Block b) (download ns)) (AwaitingBlock I) (download ns) sm' (download ns')
     \<and> (header_hash K (blk_header b) \<in> in_flight (download ns) \<longrightarrow>
          buffer (download ns') (prev_blockhash (blk_header b)) = to_kernel_block K b)"
proof -
  let ?h = "header_hash K (blk_header b)"
  let ?D = "delivered K (AwaitingBlock I) (Block b) (download ns)"
  obtain kb where kb: "to_kernel_block K b = Some kb" using kernel_okD(5) [OF assms(1)] by blast
  define d where "d = (download ns)\<lparr>in_flight := in_flight (download ns) - {?h}\<rparr>"
  define ns1 where "ns1 = (if ?h \<in> in_flight (download ns)
      then node_buffer_block (prev_blockhash (blk_header b)) kb (ns\<lparr>download := d\<rparr>) else ns\<lparr>download := d\<rparr>)"
  have ns1: "chainman ns1 = chainman ns" "in_flight (download ns1) = in_flight (download ns) - {?h}"
    "wanted_blocks (download ns) - ?D \<subseteq> wanted_blocks (download ns1)"
    "?h \<in> in_flight (download ns) \<longrightarrow> buffer (download ns1) (prev_blockhash (blk_header b)) = Some kb"
    by (auto simp: ns1_def d_def node_buffer_block_def buffer_block_def wanted_blocks_def delivered_def)
  have run: "process_message K (AwaitingBlock I) (Block b) src ns
      = (if I - {?h} = {} then next_batch K ns1 else Some (AwaitingBlock (I - {?h}), [], ns1))"
    using kb by (simp add: process_message_def release_def Let_def ns1_def d_def)
  show ?thesis
  proof (cases "I - {?h} = {}")
    case False
    then have "fair_step ?D (AwaitingBlock I) (download ns) (AwaitingBlock (I - {?h})) (download ns1)"
      using ns1(2,3) by (auto simp: fair_step_def)
    then show ?thesis using False run ns1(1,4) assms(2) kb by auto
  next
    case True
    obtain sm' msgs ns' where nb: "next_batch K ns1 = Some (sm', msgs, ns')" "chainman ns' = chainman ns1"
      "fair_step {} AwaitingInv (download ns1) sm' (download ns')" "buffer (download ns') = buffer (download ns1)"
      using next_batch_fair [OF assms(1), of ns1 AwaitingInv] by auto
    have "fair_step ?D (AwaitingBlock I) (download ns) sm' (download ns')"
      using True ns1(2,3) by (intro fair_step_trans [OF _ _ nb(3)]) auto
    then show ?thesis using True run nb ns1 assms(2) kb by auto
  qed
qed

lemma process_message_effect:
  assumes "kernel_ok K ok" "ok (chainman ns)"
  shows "\<exists>sm' msgs ns'. process_message K sm m src ns = Some (sm', msgs, ns') \<and> ok (chainman ns')
     \<and> fair_step (delivered K sm m (download ns)) sm (download ns) sm' (download ns')"
proof -
  consider (headers) hs where "sm = AwaitingHeaders" "m = Headers hs"
    | (announced) hs where "sm = AwaitingInv" "m = Headers hs"
    | (inv) items where "sm = AwaitingInv" "m = Inv items"
    | (block) I b where "sm = AwaitingBlock I" "m = Block b"
    | (quiet) "\<exists>msgs ns'. process_message K sm m src ns = Some (sm, msgs, ns') \<and> chainman ns' = chainman ns
        \<and> download ns' = download ns \<and> delivered K sm m (download ns) = {}"
    by (cases sm; cases m) (auto simp: process_message_def delivered_def)
  then show ?thesis
  proof cases
    case headers
    then show ?thesis using process_message_headers [OF assms, of hs src] by (simp add: delivered_def)
  next
    case announced
    then show ?thesis using process_message_announced [OF assms, of hs src] by (simp add: delivered_def)
  next
    case inv
    moreover have "fair_step {} AwaitingInv (download ns) AwaitingHeaders (download ns)"
      by (auto simp: fair_step_def)
    ultimately show ?thesis
      using request_headers_total [OF assms] assms(2)
      by (auto simp: process_message_def delivered_def fair_step_refl)
  next
    case block
    then show ?thesis using process_message_block [OF assms, of I b src] by auto
  next
    case quiet
    then show ?thesis using assms(2) by (auto simp: fair_step_refl)
  qed
qed

section \<open>Properties\<close>

text \<open>
  C25: The block locator of a tip at height \<open>h\<close> up to \<open>2 ^ 30 + 9\<close> lists the hashes
  of its ancestors at the heights \<open>h, h - 1, ..., h - 10\<close> and then at distances that double,
  strictly descending from the tip to the genesis block, at most 41 of them, so a message
  that carries it is within the protocol's limit.  Above that height the doubling of the
  step overflows its 32-bit integer.
\<close>

theorem block_locators:
  assumes "has_ancestors K tip" "0 \<le> entry_height K tip" "entry_height K tip < 2 ^ 31"
  shows "if entry_height K tip \<le> 2 ^ 30 + 9
     then \<exists>heights. build_block_locators K tip = Some (map (hash_at K tip) heights)
       \<and> hd heights = entry_height K tip \<and> last heights = 0 \<and> sorted_wrt (>) heights
       \<and> (\<forall>k < length heights. heights ! k
            = max 0 (entry_height K tip - (if k \<le> 10 then int k else 9 + 2 ^ (k - 10))))
       \<and> length heights \<le> 41
       \<and> \<not> is_discouraged (create_getheaders_message (map (hash_at K tip) heights))
     else build_block_locators K tip = None"
proof (cases "entry_height K tip \<le> 2 ^ 30 + 9")
  case False
  then show ?thesis using build_block_locators_overflow [OF assms(1) _ assms(3)] by simp
next
  case True
  let ?h = "entry_height K tip"
  let ?n = "locator_last ?h"
  let ?hs = "map (locator_height ?h) [0..<Suc ?n]"
  note ok = build_block_locators_ok [OF assms(1,2) True]
  have "build_block_locators K tip = Some (map (hash_at K tip) ?hs)"
    using ok(1) by (simp add: locator_prefix_def)
  moreover have "hd ?hs = ?h"
    using assms(2) by (simp add: upt_conv_Cons locator_height_def locator_offset_def del: upt_Suc)
  moreover have "last ?hs = 0"
    using locator_last_reaches [of ?h] by (simp add: locator_height_def)
  moreover have "sorted_wrt (>) ?hs"
  proof -
    have "locator_height ?h j < locator_height ?h i" if "i < j" "j < Suc ?n" for i j
      using locator_offset_mono [OF that(1)] locator_last_first [of i ?h] that
      by (simp add: locator_height_def)
    then show ?thesis by (auto simp: sorted_wrt_iff_nth_less nth_append simp del: upt_Suc)
  qed
  moreover have "\<forall>k < length ?hs. ?hs ! k = max 0 (?h - (if k \<le> 10 then int k else 9 + 2 ^ (k - 10)))"
    by (simp add: locator_height_def locator_offset_def del: upt_Suc)
  moreover have "length ?hs \<le> 41" using ok(2) by simp
  moreover have "\<not> is_discouraged (create_getheaders_message (map (hash_at K tip) ?hs))"
    using ok(2) by (simp add: is_discouraged_def create_getheaders_message_def max_locator_hashes_def)
  ultimately show ?thesis using True by (simp only: if_True) blast
qed

text \<open>
  C23: Building the download queue always ends.  An empty queue is filled with the
  branch from the active chain to the best header, oldest block first, leaving out exactly
  the blocks that are buffered or in flight; a queue that is not empty is left alone.
\<close>

theorem download_queue_is_branch:
  assumes "kernel_ok K ok" "ok c" "best_entry K c = Some best"
  shows "if queue d \<noteq> [] then populate_download_queue K c d = Some d
     else \<exists>branch fork. populate_download_queue K c d
            = Some (d\<lparr>queue := filter (\<lambda>h. h \<notin> buffered_hashes (kernel_block_hash K) d \<and> h \<notin> in_flight d)
                                (map (entry_hash K) branch)\<rparr>)
       \<and> linked K (rev branch @ [fork]) \<and> hd (rev branch @ [fork]) = best
       \<and> active_contains K c fork \<and> (\<forall>e \<in> set branch. \<not> active_contains K c e)"
proof (cases "queue d = []")
  case False
  then show ?thesis by (simp add: populate_download_queue_def)
next
  case True
  obtain es fork where es: "walk_back K c best [] = Some (Some (map (entry_hash K) es))"
    "linked K (es @ [fork])" "hd (es @ [fork]) = best" "active_contains K c fork"
    "\<forall>x \<in> set es. \<not> active_contains K c x"
    using walk_back_spec [OF assms(1,2), of best "[]"] by auto
  have "d\<lparr>queue := []\<rparr> = d" using True by (cases d) simp
  then have "populate_download_queue K c d = Some (d\<lparr>queue :=
      filter (\<lambda>h. h \<notin> buffered_hashes (kernel_block_hash K) d \<and> h \<notin> in_flight d) (map (entry_hash K) (rev es))\<rparr>)"
    using True es(1) assms(3) by (auto simp: populate_download_queue_def Let_def rev_map)
  then show ?thesis using es True by (auto intro!: exI [of _ "rev es"] exI [of _ fork])
qed


section \<open>Witnesses\<close>

text \<open>A kernel with a chain of six headers, the first four of them connected.\<close>

definition demo_kernel :: "(unit, u8, unit, unit block) kernel" where
  "demo_kernel = \<lparr>
     process_block_header = (\<lambda>h c. (True, c)), best_entry = (\<lambda>c. Some 5), active_tip = (\<lambda>c. 3),
     active_contains = (\<lambda>c e. e \<le> 3), get_block_tree_entry = (\<lambda>c h. if h \<le> 5 then Some (ucast h) else None),
     entry_height = (\<lambda>e. uint e), entry_prev = (\<lambda>e. if e = 0 then None else Some (e - 1)),
     entry_ancestor = (\<lambda>e h. if 0 \<le> h \<and> h \<le> uint e then Some (word_of_int h) else None),
     entry_hash = ucast, header_hash = (\<lambda>h. ucast (hdr_nonce h)), to_kernel_block = Some,
     kernel_block_hash = (\<lambda>b. ucast (hdr_nonce (blk_header b)))\<rparr>"

lemma demo_kernel_ancestors: "has_ancestors demo_kernel e"
  by (simp add: has_ancestors_def demo_kernel_def)

lemma demo_kernel_ok: "kernel_ok demo_kernel (\<lambda>c. True)"
proof -
  have "uint (e :: u8) \<le> 2 ^ 30" for e
    using uint_lt2p [of e] by simp
  moreover have "uint (e - 1 :: u8) = uint e - 1" if "e \<noteq> 0" for e
  proof -
    have "1 \<le> e" using that by (simp add: word_le_nat_alt Suc_le_eq unat_gt_0)
    then show ?thesis using uint_minus_simple_alt [of 1 e] by simp
  qed
  ultimately show ?thesis
    using demo_kernel_ancestors by (auto simp: kernel_ok_def demo_kernel_def)
qed

definition demo_node :: "(unit, unit block) node_state" where
  "demo_node = \<lparr>chainman = (), download = \<lparr>queue = [], in_flight = {4}, buffer = Map.empty\<rparr>,
     addr_sent = [], addr_open = True\<rparr>"

theorem block_locators_witness:
  "\<exists>heights. build_block_locators demo_kernel 5 = Some (map (hash_at demo_kernel 5) heights)
     \<and> hd heights = 5 \<and> last heights = 0"
  using block_locators [of demo_kernel 5, OF demo_kernel_ancestors] by (auto simp: demo_kernel_def)

theorem download_queue_is_branch_witness:
  "\<exists>branch fork. populate_download_queue demo_kernel () (download demo_node)
      = Some ((download demo_node)\<lparr>queue := filter (\<lambda>h. h \<notin> buffered_hashes (kernel_block_hash demo_kernel) (download demo_node)
          \<and> h \<notin> in_flight (download demo_node)) (map (entry_hash demo_kernel) branch)\<rparr>)
     \<and> linked demo_kernel (rev branch @ [fork]) \<and> hd (rev branch @ [fork]) = 5"
proof -
  have "best_entry demo_kernel () = Some 5" "queue (download demo_node) = []"
    by (simp_all add: demo_kernel_def demo_node_def)
  then show ?thesis
    using download_queue_is_branch [OF demo_kernel_ok TrueI, of "()" 5 "download demo_node"] by auto
qed


end
