(* ===== verification/File_System.thy ===== *)
theory File_System
  imports Prelude
begin

text \<open>
  Files as the code uses them: a map from paths to contents, and the operations
  \<open>File::create\<close>, \<open>write_all\<close>, \<open>sync_data\<close>, \<open>rename\<close> and \<open>fs::read\<close>,
  each of which may fail.  The failures of one run are an argument, so that a theorem
  holds for every way the operations can fail.  The interface \<open>atomic_save\<close> states
  what saving through a temporary file promises.
\<close>

type_synonym path = string
type_synonym file_system = "path \<rightharpoonup> u8 list"

text \<open>
  The outcome of the four steps of a save: \<open>None\<close> is success.  A failed write leaves
  the first \<open>written\<close> bytes in the file.
\<close>

record save_faults =
  create_fault :: "io_error option"
  write_fault :: "io_error option"
  written :: nat
  sync_fault :: "io_error option"
  rename_fault :: "io_error option"

definition no_faults :: save_faults where
  "no_faults = \<lparr>create_fault = None, write_fault = None, written = 0, sync_fault = None,
     rename_fault = None\<rparr>"

definition fs_create :: "io_error option \<Rightarrow> path \<Rightarrow> file_system \<Rightarrow> io_error option \<times> file_system" where
  "fs_create fault p fs = (case fault of Some e \<Rightarrow> (Some e, fs) | None \<Rightarrow> (None, fs(p \<mapsto> [])))"

definition fs_write_all ::
    "io_error option \<Rightarrow> nat \<Rightarrow> path \<Rightarrow> u8 list \<Rightarrow> file_system \<Rightarrow> io_error option \<times> file_system" where
  "fs_write_all fault n p bytes fs =
     (case fault of
        Some e \<Rightarrow> (Some e, fs(p \<mapsto> the (fs p) @ take n bytes))
      | None \<Rightarrow> (None, fs(p \<mapsto> the (fs p) @ bytes)))"

definition fs_rename ::
    "io_error option \<Rightarrow> path \<Rightarrow> path \<Rightarrow> file_system \<Rightarrow> io_error option \<times> file_system" where
  "fs_rename fault src dst fs =
     (case fault of
        Some e \<Rightarrow> (Some e, fs)
      | None \<Rightarrow> (None, (fs(src := None))(dst := fs src)))"

definition fs_read :: "path \<Rightarrow> file_system \<Rightarrow> io_error + u8 list" where
  "fs_read p fs = ok_or (OtherError ''not found'') (fs p)"

text \<open>Create \<open>tmp\<close>, write the bytes, sync, rename over \<open>dst\<close>; stop at the first failure.\<close>

definition write_then_rename ::
    "save_faults \<Rightarrow> path \<Rightarrow> path \<Rightarrow> u8 list \<Rightarrow> file_system \<Rightarrow> (io_error + unit) \<times> file_system" where
  "write_then_rename fl tmp dst bytes fs =
     (case fs_create (create_fault fl) tmp fs of
        (Some e, fs1) \<Rightarrow> (Inl e, fs1)
      | (None, fs1) \<Rightarrow>
          (case fs_write_all (write_fault fl) (written fl) tmp bytes fs1 of
             (Some e, fs2) \<Rightarrow> (Inl e, fs2)
           | (None, fs2) \<Rightarrow>
               (case sync_fault fl of
                  Some e \<Rightarrow> (Inl e, fs2)
                | None \<Rightarrow>
                    (case fs_rename (rename_fault fl) tmp dst fs2 of
                       (Some e, fs3) \<Rightarrow> (Inl e, fs3)
                     | (None, fs3) \<Rightarrow> (Inr (), fs3)))))"

lemmas fs_defs = fs_create_def fs_write_all_def fs_rename_def

lemma write_then_rename_cases:
  assumes "tmp \<noteq> dst"
  shows "(\<exists>e fs'. write_then_rename fl tmp dst bytes fs = (Inl e, fs') \<and> fs' dst = fs dst
            \<and> (\<forall>p. p \<noteq> tmp \<longrightarrow> fs' p = fs p))
       \<or> write_then_rename fl tmp dst bytes fs = (Inr (), fs(tmp := None, dst \<mapsto> bytes))"
  using assms
  by (auto simp: write_then_rename_def fs_defs fun_upd_twist split: option.split)

lemma write_then_rename_ok:
  "tmp \<noteq> dst \<Longrightarrow> write_then_rename no_faults tmp dst bytes fs = (Inr (), fs(tmp := None, dst \<mapsto> bytes))"
  by (auto simp: write_then_rename_def fs_defs no_faults_def fun_upd_twist)

section \<open>The contract of a save\<close>

text \<open>
  \<open>save\<close> writes the encoding of a value to a path, \<open>load\<close> reads one back.  A
  failed save leaves what was stored; a successful one stores exactly the encoding.
\<close>

locale atomic_save =
  fixes encode :: "'v \<Rightarrow> ('e :: type) + u8 list"
    and save :: "save_faults \<Rightarrow> path \<Rightarrow> 'v \<Rightarrow> file_system \<Rightarrow> ('e + unit) \<times> file_system"
    and valid_path :: "path \<Rightarrow> bool"
  assumes save_failed: "valid_path p \<Longrightarrow> save fl p v fs = (Inl e, fs') \<Longrightarrow> fs' p = fs p"
    and save_done: "valid_path p \<Longrightarrow> save fl p v fs = (Inr u, fs') \<Longrightarrow>
          \<exists>bytes. encode v = Inr bytes \<and> fs' p = Some bytes"
    and save_possible: "valid_path p \<Longrightarrow> encode v = Inr bytes \<Longrightarrow>
          \<exists>fs'. save no_faults p v fs = (Inr (), fs')"
begin

lemma save_all_or_nothing:
  assumes "valid_path p"
  shows "snd (save fl p v fs) p = fs p \<or> (\<exists>bytes. encode v = Inr bytes \<and> snd (save fl p v fs) p = Some bytes)"
proof (cases "save fl p v fs")
  case (Pair res fs')
  then show ?thesis
    using save_failed [OF assms] save_done [OF assms] by (cases res) auto
qed

lemma save_then_read:
  assumes "valid_path p" "encode v = Inr bytes"
  shows "fst (save no_faults p v fs) = Inr () \<and> fs_read p (snd (save no_faults p v fs)) = Inr bytes"
proof -
  obtain fs' where fs': "save no_faults p v fs = (Inr (), fs')"
    using save_possible [OF assms] by blast
  then have "fs' p = Some bytes"
    using save_done [OF assms(1) fs'] assms(2) by auto
  with fs' show ?thesis by (simp add: fs_read_def)
qed

end

end
