(* ===== verification/Address_Book_IO.thy ===== *)
theory Address_Book_IO
  imports Address_Book File_System
begin

text \<open>
  The on-disk form of the address book: \<open>Record::serialize\<close> and
  \<open>Record::deserialize\<close> (address-book/src/lib.rs), \<open>write_table\<close> and
  \<open>read_table\<close> (address-book/src/io.rs), and loading and saving the node's table
  (src/net/addr.rs).  The BIP 155 encoding of an address is code of the
  \<open>bitcoin\<close> crate: it is a pair of arguments \<open>enc\<close> and \<open>dec\<close>, and the round-trip
  theorems name what they rely on as \<open>addr_codec\<close>.  \<open>dec\<close> reports how many bytes
  of its input it consumed.
\<close>

section \<open>Records\<close>

definition is_serializable :: "peer_record \<Rightarrow> bool" where
  "is_serializable r = (case addr r of Unknown _ _ \<Rightarrow> False | _ \<Rightarrow> True)"

text \<open>\<open>None\<close> is the \<open>unreachable!\<close> panic on an unknown address.\<close>

definition addr_size :: "addr_v2 \<Rightarrow> u8 option" where
  "addr_size a = (case a of
       I2p _ \<Rightarrow> Some 34
     | Ipv4 _ \<Rightarrow> Some 6
     | Ipv6 _ \<Rightarrow> Some 18
     | TorV2 _ \<Rightarrow> Some 12
     | TorV3 _ \<Rightarrow> Some 34
     | Cjdns _ \<Rightarrow> Some 18
     | Unknown _ _ \<Rightarrow> None)"

definition compute_size :: "peer_record \<Rightarrow> u8 option" where
  "compute_size r =
     map_option (\<lambda>a. a + 2 + word_of_nat (length (source r)) + 8 + 1 + 9 + 9) (addr_size (addr r))"

definition time_bytes :: "duration option \<Rightarrow> u8 list" where
  "time_bytes d = (case d of
       Some t \<Rightarrow> 1 # to_le_bytes (word_of_nat (as_secs t) :: u64)
     | None \<Rightarrow> replicate 9 0)"

definition serialize :: "(addr_v2 \<Rightarrow> u8 list) \<Rightarrow> peer_record \<Rightarrow> u8 list option" where
  "serialize enc r =
     map_option (\<lambda>len. len # enc (addr r) @ to_le_bytes (port r) @ source r
         @ to_le_bytes (services r) @ [failed_attempts r]
         @ time_bytes (last_attempt r) @ time_bytes (last_connection r))
       (compute_size r)"

definition read_time :: "u8 list \<Rightarrow> io_error + (duration option \<times> u8 list)" where
  "read_time bs =
     rbind (read_exact 1 bs) (\<lambda>(flag, bs).
       if flag = [0] then rbind (read_exact 8 bs) (\<lambda>(_, bs). Inr (None, bs))
       else if flag = [1] then
         rbind (read_exact 8 bs) (\<lambda>(time, bs).
           Inr (Some (from_secs (unat (from_le_bytes time :: u64))), bs))
       else Inl (InvalidData ''invalid time encoding''))"

definition deserialize_content ::
    "(u8 list \<Rightarrow> string + addr_v2 \<times> nat) \<Rightarrow> u8 list \<Rightarrow> io_error + peer_record" where
  "deserialize_content dec content =
     rbind (map_err InvalidData (dec content)) (\<lambda>(a, len).
     rbind (read_exact 2 (drop len content)) (\<lambda>(port, slice).
     rbind (read_exact 4 slice) (\<lambda>(src, slice).
     rbind (read_exact 8 slice) (\<lambda>(serv, slice).
     rbind (read_exact 1 slice) (\<lambda>(failed, slice).
     rbind (read_time slice) (\<lambda>(attempt, slice).
     rbind (read_time slice) (\<lambda>(conn, slice).
       Inr \<lparr>addr = a, port = from_le_bytes port, source = src,
            services = from_le_bytes serv, failed_attempts = from_le_bytes failed,
            last_connection = conn, last_attempt = attempt\<rparr>)))))))"

definition deserialize ::
    "(u8 list \<Rightarrow> string + addr_v2 \<times> nat) \<Rightarrow> u8 list \<Rightarrow> io_error + (peer_record \<times> u8 list)" where
  "deserialize dec bs =
     rbind (read_exact 1 bs) (\<lambda>(size, bs).
     rbind (read_exact (unat (from_le_bytes size :: u8)) bs) (\<lambda>(content, bs).
     rbind (deserialize_content dec content) (\<lambda>r. Inr (r, bs))))"

section \<open>Tables\<close>

definition magic :: "u8 list" where
  "magic = [65, 68, 66, 75]"

definition bucket_records :: "bucket \<Rightarrow> peer_record list" where
  "bucket_records b = List.map_filter id (records b)"

definition unordered_records :: "table \<Rightarrow> peer_record list" where
  "unordered_records t = filter is_serializable (concat (map bucket_records (buckets t)))"

text \<open>The bytes of a whole table; \<open>None\<close> is the panic of \<^const>\<open>serialize\<close>.\<close>

definition table_bytes :: "(addr_v2 \<Rightarrow> u8 list) \<Rightarrow> table \<Rightarrow> u8 list option" where
  "table_bytes enc t =
     (let rs = unordered_records t in
      map_option (\<lambda>bss. magic @ to_le_bytes (word_of_nat (length rs) :: u64) @ concat bss)
        (those (map (serialize enc) rs)))"

fun read_records ::
    "table_cfg \<Rightarrow> (u8 list \<Rightarrow> string + addr_v2 \<times> nat) \<Rightarrow> nat \<Rightarrow> table \<Rightarrow> u8 list \<Rightarrow> io_error + table" where
  "read_records c dec 0 t bs = Inr t"
| "read_records c dec (Suc n) t bs =
     rbind (deserialize dec bs) (\<lambda>(r, bs). read_records c dec n (fst (table_add c t r)) bs)"

definition read_table ::
    "table_cfg \<Rightarrow> (u8 list \<Rightarrow> string + addr_v2 \<times> nat) \<Rightarrow> u8 list \<Rightarrow> io_error + table" where
  "read_table c dec bs =
     rbind (read_exact 4 bs) (\<lambda>(m, bs).
     rbind (check (m = magic) (InvalidData ''invalid magic bytes'')) (\<lambda>_.
     rbind (read_exact 8 bs) (\<lambda>(size, bs).
       read_records c dec (unat (from_le_bytes size :: u64)) (table_new c) bs)))"

section \<open>The node's table\<close>

definition addr_table_cfg :: "(hash_key \<Rightarrow> u64) \<Rightarrow> table_cfg" where
  "addr_table_cfg h = \<lparr>nB = 16, nS = 16, nW = 4, default_hash = h\<rparr>"

definition addr_table_load ::
    "(hash_key \<Rightarrow> u64) \<Rightarrow> (u8 list \<Rightarrow> string + addr_v2 \<times> nat) \<Rightarrow> path \<Rightarrow> file_system \<Rightarrow> table" where
  "addr_table_load h dec p fs =
     (case fs_read p fs of
        Inl _ \<Rightarrow> table_new (addr_table_cfg h)
      | Inr bs \<Rightarrow>
          (case read_table (addr_table_cfg h) dec bs of
             Inl _ \<Rightarrow> table_new (addr_table_cfg h)
           | Inr t \<Rightarrow> t))"

text \<open>\<open>Path::with_file_name\<close>: the last component of the path is replaced.\<close>

definition with_file_name :: "path \<Rightarrow> string \<Rightarrow> path" where
  "with_file_name p name = rev (dropWhile (\<lambda>ch. ch \<noteq> CHR ''/'') (rev p)) @ name"

definition table_encode :: "(addr_v2 \<Rightarrow> u8 list) \<Rightarrow> table \<Rightarrow> io_error + u8 list" where
  "table_encode enc t = ok_or (OtherError ''unserializable'') (table_bytes enc t)"

definition addr_table_save ::
    "(addr_v2 \<Rightarrow> u8 list) \<Rightarrow> save_faults \<Rightarrow> path \<Rightarrow> table \<Rightarrow> file_system
       \<Rightarrow> (io_error + unit) \<times> file_system" where
  "addr_table_save enc fl p t fs =
     (case table_encode enc t of
        Inl e \<Rightarrow> (Inl e, fs)
      | Inr bytes \<Rightarrow> write_then_rename fl (with_file_name p ''peers.tmp'') p bytes fs)"

section \<open>Round trip of a record\<close>

text \<open>
  What the file format relies on of the address encoding: on the addresses of \<open>D\<close> it
  has the length that \<open>compute_size\<close> reserves and it is read back whatever follows.
\<close>

definition addr_codec ::
    "(addr_v2 \<Rightarrow> u8 list) \<Rightarrow> (u8 list \<Rightarrow> string + addr_v2 \<times> nat) \<Rightarrow> addr_v2 set \<Rightarrow> bool" where
  "addr_codec enc dec D \<longleftrightarrow>
     (\<forall>a\<in>D. addr_size a = Some (word_of_nat (length (enc a))) \<and> length (enc a) \<le> 34
        \<and> (\<forall>rest. dec (enc a @ rest) = Inr (a, length (enc a))))"

definition time_fits :: "duration option \<Rightarrow> bool" where
  "time_fits d = (case d of None \<Rightarrow> True | Some t \<Rightarrow> as_secs t < 2 ^ 64)"

definition storable :: "addr_v2 set \<Rightarrow> peer_record \<Rightarrow> bool" where
  "storable D r \<longleftrightarrow> addr r \<in> D \<and> length (source r) = 4
     \<and> time_fits (last_attempt r) \<and> time_fits (last_connection r)"

text \<open>A stored record keeps its times to the second.\<close>

definition whole_secs :: "duration option \<Rightarrow> duration option" where
  "whole_secs d = map_option (\<lambda>t. from_secs (as_secs t)) d"

definition stored :: "peer_record \<Rightarrow> peer_record" where
  "stored r = r\<lparr>last_connection := whole_secs (last_connection r),
                last_attempt := whole_secs (last_attempt r)\<rparr>"

lemma stored_keeps [simp]:
  "addr (stored r) = addr r" "source (stored r) = source r" "table_key c (stored r) = table_key c r"
  "is_serializable (stored r) = is_serializable r"
  by (simp_all add: stored_def table_key_def derive_bucket_def derive_slot_def destination_id_def
      is_serializable_def)

lemma length_time_bytes [simp, codec_simps]: "length (time_bytes d) = 9"
  by (simp add: time_bytes_def split: option.split)

lemma read_time_time_bytes:
  assumes "time_fits d"
  shows "read_time (time_bytes d @ rest) = Inr (whole_secs d, rest)"
proof (cases d)
  case None
  have "replicate 9 (0 :: u8) @ rest = [0] @ replicate 8 0 @ rest"
    by (simp add: numeral_eq_Suc)
  then show ?thesis
    using None by (simp only: time_bytes_def read_time_def)
      (simp add: read_exact_append whole_secs_def del: append.simps replicate.simps)
next
  case (Some t)
  then have "as_secs t < 2 ^ 64" using assms by (simp add: time_fits_def)
  then have "unat (word_of_nat (as_secs t) :: u64) = as_secs t"
    by (simp add: unat_of_nat take_bit_eq_mod)
  moreover have "time_bytes d @ rest = [1] @ to_le_bytes (word_of_nat (as_secs t) :: u64) @ rest"
    using Some by (simp add: time_bytes_def)
  ultimately show ?thesis
    using Some by (simp only: read_time_def)
      (simp add: read_exact_append u64_le.read_enc whole_secs_def del: append.simps)
qed

definition content_bytes :: "(addr_v2 \<Rightarrow> u8 list) \<Rightarrow> peer_record \<Rightarrow> u8 list" where
  "content_bytes enc r = enc (addr r) @ to_le_bytes (port r) @ source r
     @ to_le_bytes (services r) @ to_le_bytes (failed_attempts r)
     @ time_bytes (last_attempt r) @ time_bytes (last_connection r)"

lemma deserialize_content_bytes:
  assumes "addr_codec enc dec D" "storable D r"
  shows "deserialize_content dec (content_bytes enc r @ rest) = Inr (stored r)"
proof -
  have "dec (enc (addr r) @ s) = Inr (addr r, length (enc (addr r)))" for s
    using assms by (auto simp: addr_codec_def storable_def)
  moreover have "length (source r) = 4" "time_fits (last_attempt r)" "time_fits (last_connection r)"
    using assms by (auto simp: storable_def)
  ultimately show ?thesis
    by (simp add: deserialize_content_def content_bytes_def read_time_time_bytes u64_le.read_enc
        u16_le.read_enc u8_le.read_enc read_exact_append stored_def del: to_le_bytes_u8)
qed

lemma serialize_content:
  assumes "addr_codec enc dec D" "storable D r"
  shows "serialize enc r = Some (word_of_nat (length (content_bytes enc r)) # content_bytes enc r)"
    and "length (content_bytes enc r) \<le> 67"
proof -
  have *: "addr_size (addr r) = Some (word_of_nat (length (enc (addr r))))" "length (source r) = 4"
    "length (enc (addr r)) \<le> 34"
    using assms by (auto simp: addr_codec_def storable_def)
  then show "serialize enc r = Some (word_of_nat (length (content_bytes enc r)) # content_bytes enc r)"
    by (simp add: serialize_def compute_size_def content_bytes_def add.commute add.left_commute)
  show "length (content_bytes enc r) \<le> 67"
    using * by (simp add: content_bytes_def)
qed

lemma unat_small: "n < 256 \<Longrightarrow> unat (word_of_nat n :: u8) = n"
  by (simp add: unat_of_nat take_bit_eq_mod)

lemma deserialize_sized:
  assumes "length content < 256"
  shows "deserialize dec ((word_of_nat (length content) :: u8) # content @ rest)
       = rbind (deserialize_content dec content) (\<lambda>r. Inr (r, rest))"
proof -
  have "read_exact 1 ((word_of_nat (length content) :: u8) # content @ rest)
      = Inr ([word_of_nat (length content)], content @ rest)"
    by (simp add: read_exact_def)
  then show ?thesis
    using assms by (simp add: deserialize_def unat_small read_exact_append)
qed

lemma deserialize_serialize:
  assumes "addr_codec enc dec D" "storable D r"
  shows "\<exists>bytes. serialize enc r = Some bytes \<and> (\<forall>rest. deserialize dec (bytes @ rest) = Inr (stored r, rest))"
proof -
  have len: "length (content_bytes enc r) < 256"
    using serialize_content(2) [OF assms] by simp
  have "deserialize dec ((word_of_nat (length (content_bytes enc r)) # content_bytes enc r) @ rest)
      = Inr (stored r, rest)" for rest
    using deserialize_sized [OF len, of dec rest] deserialize_content_bytes [OF assms, of "[]"] by simp
  then show ?thesis using serialize_content(1) [OF assms] by blast
qed

section \<open>Round trip of a table\<close>

lemma map_filter_indexed:
  assumes "\<And>i r. i < length xs \<Longrightarrow> xs ! i = Some r \<Longrightarrow> f r = g i"
  shows "map f (List.map_filter id xs) = map g (filter (\<lambda>i. xs ! i \<noteq> None) [0..<length xs])"
  using assms
proof (induction xs rule: rev_induct)
  case Nil
  then show ?case by simp
next
  case (snoc x xs)
  have *: "map f (List.map_filter id xs) = map g (filter (\<lambda>i. xs ! i \<noteq> None) [0..<length xs])"
  proof (rule snoc.IH)
    show "f r = g i" if "i < length xs" "xs ! i = Some r" for i r
      using snoc.prems [of i r] that by (simp add: nth_append)
  qed
  have "filter (\<lambda>i. (xs @ [x]) ! i \<noteq> None) [0..<length xs]
      = filter (\<lambda>i. xs ! i \<noteq> None) [0..<length xs]"
    by (rule filter_cong) (auto simp: nth_append)
  moreover have "x = Some r \<Longrightarrow> f r = g (length xs)" for r
    using snoc.prems [of "length xs" r] by simp
  ultimately show ?case
    using * by (auto simp: List.map_filter_def comp_def)
qed

lemma set_bucket_records: "set (bucket_records b) = {r. Some r \<in> set (records b)}"
  by (force simp: bucket_records_def List.map_filter_def)

lemma table_records_keys:
  assumes "table_inv c t"
  shows "map (table_key c) (concat (map bucket_records (buckets t)))
       = concat (map (\<lambda>i. map (Pair i)
           (filter (\<lambda>s. records (buckets t ! i) ! s \<noteq> None) [0..<nS c])) [0..<nB c])"
proof -
  have len: "length (buckets t) = nB c" using assms by (simp add: table_inv_def)
  have row: "map (table_key c) (bucket_records (buckets t ! i))
      = map (Pair i) (filter (\<lambda>s. records (buckets t ! i) ! s \<noteq> None) [0..<nS c])"
    if "i < nB c" for i
  proof -
    have l: "length (records (buckets t ! i)) = nS c"
      using table_inv_bucket [OF assms that] by (simp add: bucket_inv_def)
    have "table_key c r = (i, s)" if "s < nS c" "records (buckets t ! i) ! s = Some r" for s r
      by (rule table_look_key [OF assms]) (use that \<open>i < nB c\<close> in \<open>simp add: table_look_def bucket_look_def\<close>)
    then show ?thesis
      unfolding bucket_records_def l [symmetric]
      by (intro map_filter_indexed) (simp add: l)
  qed
  have "map bucket_records (buckets t) = map (\<lambda>i. bucket_records (buckets t ! i)) [0..<nB c]"
    by (rule nth_equalityI) (simp_all add: len)
  then have "map (table_key c) (concat (map bucket_records (buckets t)))
      = concat (map (\<lambda>i. map (table_key c) (bucket_records (buckets t ! i))) [0..<nB c])"
    by (simp add: map_concat comp_def)
  also have "\<dots> = concat (map (\<lambda>i. map (Pair i)
           (filter (\<lambda>s. records (buckets t ! i) ! s \<noteq> None) [0..<nS c])) [0..<nB c])"
    by (intro arg_cong [where f = concat] map_cong refl row) simp
  finally show ?thesis .
qed

lemma distinct_rows:
  "distinct is \<Longrightarrow> (\<And>i. distinct (ys i)) \<Longrightarrow> distinct (concat (map (\<lambda>i. map (Pair i) (ys i)) is))"
  by (induction "is") (auto simp: distinct_map inj_on_def)

lemma distinct_unordered_records:
  assumes "table_inv c t"
  shows "distinct (map (table_key c) (unordered_records t))"
proof -
  have "distinct (map (table_key c) (concat (map bucket_records (buckets t))))"
    unfolding table_records_keys [OF assms] by (rule distinct_rows) simp_all
  then show ?thesis
    unfolding unordered_records_def by (rule distinct_map_filter)
qed

lemma set_unordered_records:
  assumes "table_inv c t"
  shows "r \<in> set (unordered_records t)
     \<longleftrightarrow> table_look c t (table_key c r) = Some r \<and> is_serializable r"
proof -
  have len: "length (buckets t) = nB c" "\<And>i. i < nB c \<Longrightarrow> length (records (buckets t ! i)) = nS c"
    using assms table_inv_bucket [OF assms] by (auto simp: table_inv_def bucket_inv_def)
  have "(\<exists>b \<in> set (buckets t). Some r \<in> set (records b))
      \<longleftrightarrow> (\<exists>i<nB c. Some r \<in> set (records (buckets t ! i)))"
    by (metis in_set_conv_nth len(1))
  also have "\<dots> \<longleftrightarrow> (\<exists>i<nB c. \<exists>s<nS c. records (buckets t ! i) ! s = Some r)"
    by (rule ex_cong1) (auto simp: in_set_conv_nth len(2))
  also have "\<dots> \<longleftrightarrow> (\<exists>k. table_look c t k = Some r)"
    by (auto simp: table_look_def bucket_look_def split: if_splits)
  also have "\<dots> \<longleftrightarrow> table_look c t (table_key c r) = Some r" (is "?ex \<longleftrightarrow> ?at")
  proof
    assume ?ex
    then obtain k where k: "table_look c t k = Some r" by blast
    have "table_key c r = k" by (rule table_look_key [OF assms k])
    with k show ?at by simp
  qed blast
  finally show ?thesis
    by (auto simp: unordered_records_def set_bucket_records)
qed

lemma those_map_Some: "(\<And>x. x \<in> set xs \<Longrightarrow> f x = Some (g x)) \<Longrightarrow> those (map f xs) = Some (map g xs)"
  by (induction xs) auto

definition record_bytes :: "(addr_v2 \<Rightarrow> u8 list) \<Rightarrow> peer_record \<Rightarrow> u8 list" where
  "record_bytes enc r = word_of_nat (length (content_bytes enc r)) # content_bytes enc r"

definition storable_table :: "table_cfg \<Rightarrow> addr_v2 set \<Rightarrow> table \<Rightarrow> bool" where
  "storable_table c D t \<longleftrightarrow> table_inv c t \<and> nB c * nS c < 2 ^ 64
     \<and> (\<forall>r \<in> set (unordered_records t). storable D r)"

lemma table_bytes_eq:
  assumes "addr_codec enc dec D" "storable_table c D t"
  shows "table_bytes enc t = Some (magic
     @ to_le_bytes (word_of_nat (length (unordered_records t)) :: u64)
     @ concat (map (record_bytes enc) (unordered_records t)))"
proof -
  have "those (map (serialize enc) (unordered_records t)) = Some (map (record_bytes enc) (unordered_records t))"
    using assms serialize_content(1) [OF assms(1)]
    by (intro those_map_Some) (auto simp: storable_table_def record_bytes_def)
  then show ?thesis by (simp add: table_bytes_def Let_def)
qed

lemma length_unordered_records:
  assumes "table_inv c t"
  shows "length (unordered_records t) \<le> nB c * nS c"
proof -
  have "table_key c ` set (unordered_records t) \<subseteq> {..<nB c} \<times> {..<nS c}"
    using table_inv_cfg [OF assms] by (auto simp: table_key_def)
  then have "card (table_key c ` set (unordered_records t)) \<le> card ({..<nB c} \<times> {..<nS c})"
    by (intro card_mono) simp_all
  moreover have "card (table_key c ` set (unordered_records t)) = length (unordered_records t)"
    using distinct_card [OF distinct_unordered_records [OF assms]] by simp
  ultimately show ?thesis by simp
qed

lemma read_records_bytes:
  assumes "addr_codec enc dec D" "\<forall>r \<in> set rs. storable D r"
  shows "read_records c dec (length rs) t (concat (map (record_bytes enc) rs) @ rest)
       = Inr (foldl (\<lambda>t r. fst (table_add c t r)) t (map stored rs))"
  using assms(2)
proof (induction rs arbitrary: t)
  case Nil
  then show ?case by simp
next
  case (Cons r rs)
  have "deserialize dec (record_bytes enc r @ s) = Inr (stored r, s)" for s
    using deserialize_serialize [OF assms(1)] serialize_content(1) [OF assms(1)] Cons.prems
    by (force simp: record_bytes_def)
  then show ?case using Cons by simp
qed

lemma unat_small_u64: "n < 2 ^ 64 \<Longrightarrow> unat (word_of_nat n :: u64) = n"
  by (simp add: unat_of_nat take_bit_eq_mod)

definition stored_look :: "peer_record option \<Rightarrow> peer_record option" where
  "stored_look x = (case x of Some r \<Rightarrow> (if is_serializable r then Some (stored r) else None) | None \<Rightarrow> None)"

lemma map_of_unordered_records:
  assumes "table_inv c t"
  shows "map_of (map (\<lambda>r. (table_key c r, r)) (map stored (unordered_records t))) k
       = stored_look (table_look c t k)" (is "map_of ?al k = _")
proof (cases "stored_look (table_look c t k)")
  case None
  have "(k, r) \<notin> set ?al" for r
    using None by (auto simp: set_unordered_records [OF assms] stored_look_def split: option.splits)
  then show ?thesis using None by (simp add: map_of_eq_None_iff) force
next
  case (Some q)
  then obtain r where r: "table_look c t k = Some r" "is_serializable r" "q = stored r"
    by (auto simp: stored_look_def split: option.splits if_splits)
  have k: "table_key c r = k" by (rule table_look_key [OF assms r(1)])
  then have "r \<in> set (unordered_records t)"
    using r by (simp add: set_unordered_records [OF assms])
  then have "(k, q) \<in> set ?al" using k r(3) by force
  moreover have "distinct (map fst ?al)"
    using distinct_unordered_records [OF assms] by (simp add: comp_def)
  ultimately show ?thesis using Some by simp
qed

lemma read_table_bytes:
  assumes "addr_codec enc dec D" "storable_table c D t"
  shows "\<exists>bytes t'. table_bytes enc t = Some bytes \<and> read_table c dec (bytes @ rest) = Inr t'
     \<and> table_inv c t' \<and> (\<forall>k. table_look c t' k = stored_look (table_look c t k))"
proof -
  let ?rs = "unordered_records t"
  let ?t' = "foldl (\<lambda>t r. fst (table_add c t r)) (table_new c) (map stored ?rs)"
  have inv: "table_inv c t" and new: "table_inv c (table_new c)"
    using assms(2) table_inv_new table_inv_cfg by (auto simp: storable_table_def)
  have "length ?rs < 2 ^ 64"
    using length_unordered_records [OF inv] assms(2) by (simp add: storable_table_def)
  then have "read_table c dec ((magic @ to_le_bytes (word_of_nat (length ?rs) :: u64)
      @ concat (map (record_bytes enc) ?rs)) @ rest) = Inr ?t'"
    using assms by (simp add: read_table_def read_exact_append magic_def u64_le.read_enc unat_small_u64
        read_records_bytes storable_table_def del: append.simps)
  moreover have "table_look c ?t' = table_look c (table_new c)
      ++ map_of (map (\<lambda>r. (table_key c r, r)) (map stored ?rs))"
    by (rule table_store.look_ins_all [OF new])
      (use distinct_unordered_records [OF inv] in \<open>simp_all add: comp_def table_look_new\<close>)
  then have "table_look c ?t' k = stored_look (table_look c t k)" for k
    by (simp only: map_add_def table_look_new map_of_unordered_records [OF inv]) (simp split: option.split)
  moreover have "table_inv c ?t'" by (rule table_store.inv_ins_all [OF new])
  ultimately show ?thesis using table_bytes_eq [OF assms] by blast
qed

section \<open>Loading and saving\<close>

lemma addr_table_save_cases:
  assumes "with_file_name p ''peers.tmp'' \<noteq> p"
  shows "(\<exists>e fs'. addr_table_save enc fl p t fs = (Inl e, fs') \<and> fs' p = fs p)
       \<or> (\<exists>bytes fs'. table_encode enc t = Inr bytes \<and> addr_table_save enc fl p t fs = (Inr (), fs')
            \<and> fs' p = Some bytes)"
  using write_then_rename_cases [OF assms, of fl _ fs]
  by (cases "table_encode enc t") (force simp: addr_table_save_def)+

interpretation table_file: atomic_save
  "table_encode enc" "addr_table_save enc" "\<lambda>p. with_file_name p ''peers.tmp'' \<noteq> p"
proof unfold_locales
  fix p fl t fs e fs'
  assume "with_file_name p ''peers.tmp'' \<noteq> p" "addr_table_save enc fl p t fs = (Inl e, fs')"
  then show "fs' p = fs p" using addr_table_save_cases [of p enc fl t fs] by auto
next
  fix p fl t fs u fs'
  assume "with_file_name p ''peers.tmp'' \<noteq> p" "addr_table_save enc fl p t fs = (Inr u, fs')"
  then show "\<exists>bytes. table_encode enc t = Inr bytes \<and> fs' p = Some bytes"
    using addr_table_save_cases [of p enc fl t fs] by auto
next
  fix p t bytes fs
  assume "with_file_name p ''peers.tmp'' \<noteq> p" "table_encode enc t = Inr bytes"
  then show "\<exists>fs'. addr_table_save enc no_faults p t fs = (Inr (), fs')"
    by (simp add: addr_table_save_def write_then_rename_ok)
qed

definition restores :: "(hash_key \<Rightarrow> u64) \<Rightarrow> table \<Rightarrow> table \<Rightarrow> bool" where
  "restores h t t' \<longleftrightarrow> table_look (addr_table_cfg h) t'
     = (\<lambda>k. stored_look (table_look (addr_table_cfg h) t k))"

lemma addr_table_load_bytes:
  assumes "addr_codec enc dec D" "storable_table (addr_table_cfg h) D t"
    and "table_encode enc t = Inr bytes" "fs p = Some bytes"
  shows "table_inv (addr_table_cfg h) (addr_table_load h dec p fs)
     \<and> table_look (addr_table_cfg h) (addr_table_load h dec p fs)
         = (\<lambda>k. stored_look (table_look (addr_table_cfg h) t k))"
  using read_table_bytes [OF assms(1,2), of "[]"] assms(3,4)
  by (auto simp: table_encode_def ok_or_def addr_table_load_def fs_read_def split: option.splits)

section \<open>Properties\<close>


text \<open>
  A record that is cut short anywhere is reported as an unexpected end of file,
  never read as a different record.
\<close>

lemma record_truncated:
  assumes "addr_codec enc dec D" "storable D r" "serialize enc r = Some bytes" "n < length bytes"
  shows "deserialize dec (take n bytes) = Inl UnexpectedEof"
proof (cases n)
  case 0
  then show ?thesis by (simp add: deserialize_def read_exact_short)
next
  case (Suc m)
  let ?c = "content_bytes enc r"
  have bytes: "bytes = word_of_nat (length ?c) # ?c" and len: "length ?c < 256"
    using serialize_content [OF assms(1,2)] assms(3) by auto
  have "read_exact 1 (take n bytes) = Inr ([word_of_nat (length ?c)], take m ?c)"
    by (simp add: bytes Suc read_exact_def)
  moreover have "read_exact (length ?c) (take m ?c) = Inl UnexpectedEof"
    using assms(4) by (simp add: bytes Suc read_exact_short)
  ultimately show ?thesis
    using len by (simp add: deserialize_def unat_small)
qed

text \<open>
  Saving the node's address book and loading it again: without a failure of the file
  system the loaded table holds, at every position, exactly the serializable record that
  was there (times in whole seconds), and whatever step of the save fails, the loaded
  table is either that one or the one the old file held.
\<close>

lemma address_book_save_load:
  assumes "addr_codec enc dec D" "storable_table (addr_table_cfg h) D t"
    and "with_file_name p ''peers.tmp'' \<noteq> p"
  shows "restores h t (addr_table_load h dec p (snd (addr_table_save enc no_faults p t fs)))
     \<and> (restores h t (addr_table_load h dec p (snd (addr_table_save enc fl p t fs)))
        \<or> addr_table_load h dec p (snd (addr_table_save enc fl p t fs)) = addr_table_load h dec p fs)"
proof -
  obtain bytes where bytes: "table_encode enc t = Inr bytes"
    using table_bytes_eq [OF assms(1,2)] by (simp add: table_encode_def)
  note load = addr_table_load_bytes [OF assms(1,2) bytes]
  have "snd (addr_table_save enc no_faults p t fs) p = Some bytes"
    using table_file.save_then_read [OF assms(3) bytes, of fs] by (simp add: fs_read_def ok_or_def split: option.splits)
  then have "restores h t (addr_table_load h dec p (snd (addr_table_save enc no_faults p t fs)))"
    using load by (simp add: restores_def)
  moreover have "restores h t (addr_table_load h dec p (snd (addr_table_save enc fl p t fs)))
      \<or> addr_table_load h dec p (snd (addr_table_save enc fl p t fs)) = addr_table_load h dec p fs"
    using table_file.save_all_or_nothing [OF assms(3), of enc fl t fs] load bytes
    by (auto simp: restores_def addr_table_load_def fs_read_def)
  ultimately show ?thesis by blast
qed

section \<open>Witnesses\<close>

definition demo_enc :: "addr_v2 \<Rightarrow> u8 list" where
  "demo_enc a = (case a of Ipv4 os \<Rightarrow> [1, 4] @ os | _ \<Rightarrow> [])"

definition demo_dec :: "u8 list \<Rightarrow> string + addr_v2 \<times> nat" where
  "demo_dec bs = (if take 2 bs = [1, 4] \<and> 6 \<le> length bs then Inr (Ipv4 (take 4 (drop 2 bs)), 6)
                  else Inl ''unsupported address'')"

definition demo_addrs :: "addr_v2 set" where
  "demo_addrs = {Ipv4 os |os. length os = 4}"

lemma demo_codec: "addr_codec demo_enc demo_dec demo_addrs"
  by (auto simp: addr_codec_def demo_addrs_def demo_enc_def demo_dec_def addr_size_def)

definition demo_hash :: "hash_key \<Rightarrow> u64" where
  "demo_hash k = 0"

definition demo_seen :: peer_record where
  "demo_seen = (record_new (addr_table_cfg demo_hash) (Ipv4 [10, 0, 0, 1]) 8333 1 (V4 [1, 1, 1, 1]))
     \<lparr>last_attempt := Some 1500000000\<rparr>"

lemma demo_storable: "storable demo_addrs demo_seen"
  by (simp add: storable_def demo_seen_def record_new_def demo_addrs_def source_id_def time_fits_def
      as_secs_def nanos_per_sec_def)

lemma demo_node_cfg: "cfg_ok (addr_table_cfg h)"
  by (simp add: cfg_ok_def addr_table_cfg_def)

definition demo_book :: table where
  "demo_book = fst (table_add (addr_table_cfg demo_hash) (table_new (addr_table_cfg demo_hash)) demo_seen)"

lemma demo_book_look:
  "table_look (addr_table_cfg demo_hash) demo_book
     = [table_key (addr_table_cfg demo_hash) demo_seen \<mapsto> demo_seen]"
  using table_store.ins_free [OF table_inv_new [OF demo_node_cfg], of demo_hash demo_seen]
  by (auto simp: demo_book_def table_look_new fun_eq_iff)

lemma demo_book_storable: "storable_table (addr_table_cfg demo_hash) demo_addrs demo_book"
proof -
  have inv: "table_inv (addr_table_cfg demo_hash) demo_book"
    unfolding demo_book_def by (rule table_store.inv_ins [OF table_inv_new [OF demo_node_cfg]])
  moreover have "storable demo_addrs r" if "r \<in> set (unordered_records demo_book)" for r
    using that demo_storable
    by (auto simp: set_unordered_records [OF inv] demo_book_look split: if_splits)
  ultimately show ?thesis
    by (simp add: storable_table_def) (simp add: addr_table_cfg_def)
qed


end
