(* ===== verification/Manager.thy ===== *)
theory Manager
  imports Peer Address_Book_IO
begin

text \<open>
  The peer manager, src/net/manager.rs, with \<open>Destination\<close> of src/net/addr.rs,
  \<open>FatalShutdown\<close> of src/lib.rs and \<open>BitcoinPeer::new\<close> of src/net/peer.rs:
  connecting directly or through the proxy, the stages of a peer thread, the feeler, and
  the broadcast loop.  What the outside does (the outcome of a TCP connect, clock readings,
  random choices) is given as arguments; loops that wait take the sequence of what they
  will observe as a function of the round.
\<close>

section \<open>Destinations\<close>

record destination =
  dest_addr :: addr_v2
  dest_port :: u16

definition from_socket_addr :: "ip_addr \<times> u16 \<Rightarrow> destination" where
  "from_socket_addr sa =
     (case fst sa of
        V4 ip \<Rightarrow> \<lparr>dest_addr = Ipv4 ip, dest_port = snd sa\<rparr>
      | V6 ip \<Rightarrow> \<lparr>dest_addr = Ipv6 ip, dest_port = snd sa\<rparr>)"

text \<open>What a peer thread makes of a selected address; \<open>None\<close> is \<open>continue\<close>.\<close>

definition usable_destination :: "bool \<Rightarrow> addr_v2 \<times> u16 \<Rightarrow> destination option" where
  "usable_destination proxy ap =
     (case fst ap of
        Ipv4 ip \<Rightarrow> Some (from_socket_addr (V4 ip, snd ap))
      | Ipv6 ip \<Rightarrow> Some (from_socket_addr (V6 ip, snd ap))
      | TorV3 key \<Rightarrow> if proxy then Some \<lparr>dest_addr = TorV3 key, dest_port = snd ap\<rparr> else None
      | _ \<Rightarrow> None)"

section \<open>Fatal shutdown\<close>

record fatal_shutdown =
  triggered :: bool
  signals :: nat
  signal_open :: bool

definition fatal_new :: fatal_shutdown where
  "fatal_new = \<lparr>triggered = False, signals = 0, signal_open = True\<rparr>"

text \<open>\<open>None\<close> is the panic when the receiving side is gone.\<close>

definition trigger :: "fatal_shutdown \<Rightarrow> fatal_shutdown option" where
  "trigger f =
     (if triggered f then Some f
      else if signal_open f then Some (f\<lparr>triggered := True, signals := signals f + 1\<rparr>)
      else None)"

section \<open>Connecting\<close>

text \<open>The outside of one connection attempt.\<close>

record 'tx attempt_env =
  ae_wire :: "'tx wire"
  ae_sha3 :: "u8 list \<Rightarrow> u8 list"
  ae_dial :: "io_error + tcp_stream"
  ae_unix_time :: duration
  ae_unix_secs :: i64
  ae_nonce :: u64
  ae_now :: instant

definition socks_of_addr :: "addr_v2 \<Rightarrow> socks_destination option" where
  "socks_of_addr a =
     (case a of
        Ipv4 ip \<Rightarrow> Some (SocksIpv4 ip)
      | Ipv6 ip \<Rightarrow> Some (SocksIpv6 ip)
      | TorV3 key \<Rightarrow> Some (OnionAddress key)
      | _ \<Rightarrow> None)"

definition manager_connect ::
    "'tx attempt_env \<Rightarrow> connection_config \<Rightarrow> destination \<Rightarrow> bool \<Rightarrow> duration
       \<Rightarrow> (net_error + (connection_metrics \<times> tcp_stream)) option" where
  "manager_connect env conf dest proxy read_tmo =
     (let timeouts = set_read read_tmo timeout_params_default in
      if proxy then
        (case socks_of_addr (dest_addr dest) of
           None \<Rightarrow> Some (Inl (Io (OtherError ''cannot connect to destination address'')))
         | Some d \<Rightarrow>
             (case socks_connect (ae_sha3 env) (ae_dial env) d (dest_port dest) read_tmo of
                None \<Rightarrow> None
              | Some (Inl e) \<Rightarrow> Some (Inl (Io e))
              | Some (Inr s) \<Rightarrow>
                  handshake (ae_wire env) conf (ae_unix_time env) (ae_unix_secs env) (ae_nonce env) (ae_now env) s))
      else
        (case dest_addr dest of
           Ipv4 _ \<Rightarrow> open_connection (ae_wire env) conf (ae_unix_time env) (ae_unix_secs env) (ae_nonce env)
                       (ae_now env) timeouts (ae_dial env)
         | Ipv6 _ \<Rightarrow> open_connection (ae_wire env) conf (ae_unix_time env) (ae_unix_secs env) (ae_nonce env)
                       (ae_now env) timeouts (ae_dial env)
         | _ \<Rightarrow> Some (Inl (Io (OtherError ''cannot connect to destination address without a proxy'')))))"

text \<open>\<open>NETWORK\<close> is service bit 0, \<open>WITNESS\<close> service bit 3.\<close>

definition peer_config :: "network \<Rightarrow> i32 \<Rightarrow> connection_config" where
  "peer_config net height =
     user_agent ''/kernel-node:0.1.0/'' (offer_services 8 (set_service_requirement 1
       (request_addr (our_height height (change_network net config_new)))))"

definition feeler_config :: "network \<Rightarrow> connection_config" where
  "feeler_config net =
     user_agent ''/kernel-node:0.1.0/'' (offer_services 8 (set_service_requirement 1 (change_network net config_new)))"

definition broadcast_config :: "network \<Rightarrow> connection_config" where
  "broadcast_config net =
     user_agent ''/kernel-node:0.1.0/'' (offer_services 8 (change_network net config_new))"

definition peer_new ::
    "('c, 'e, 'tx, 'b) kernel \<Rightarrow> 'tx attempt_env \<Rightarrow> network \<Rightarrow> bool \<Rightarrow> bool \<Rightarrow> destination \<Rightarrow> ('c, 'b) node_state
       \<Rightarrow> (net_error + 'tx bitcoin_peer) option" where
  "peer_new K env net proxy writer_alive dest ns =
     (let height = entry_height K (active_tip K (chainman ns)) in
      case manager_connect env (peer_config net (word_of_int height)) dest proxy (from_secs 60) of
        None \<Rightarrow> None
      | Some (Inl e) \<Rightarrow> Some (Inl e)
      | Some (Inr _) \<Rightarrow>
          (case best_entry K (chainman ns) of
             None \<Rightarrow> None
           | Some best \<Rightarrow>
               (case build_block_locators K best of
                  None \<Rightarrow> None
                | Some locators \<Rightarrow>
                    (if writer_alive then
                       Some (Inr \<lparr>peer_addr = dest_addr dest, state_machine = AwaitingHeaders,
                          last_progress = ae_now env, to_writer = [create_getheaders_message locators],
                          writer_open = True\<rparr>)
                     else Some (Inl ChannelClosed)))))"

section \<open>Peer threads\<close>

datatype 'tx peer_thread =
    Idle nat
  | Connecting destination
  | Serving destination "'tx bitcoin_peer"
  | Ended

definition default_max_peers :: nat where "default_max_peers = 8"

definition set_max_peers :: "nat \<Rightarrow> nat" where
  "set_max_peers n = max n 1"

definition empty_address_book_limit :: nat where "empty_address_book_limit = 60"

text \<open>The first stage of a round: choose a destination and mark it as connected.\<close>

definition thread_select ::
    "bool \<Rightarrow> (addr_v2 \<times> u16) option \<Rightarrow> nat \<Rightarrow> destination set \<Rightarrow> fatal_shutdown
       \<Rightarrow> ('tx peer_thread \<times> destination set \<times> fatal_shutdown) option" where
  "thread_select proxy selected empty_selections connected fatal =
     (case selected of
        None \<Rightarrow>
          (if empty_selections + 1 \<ge> empty_address_book_limit
           then map_option (\<lambda>f. (Ended, connected, f)) (trigger fatal)
           else Some (Idle (empty_selections + 1), connected, fatal))
      | Some ap \<Rightarrow>
          (case usable_destination proxy ap of
             None \<Rightarrow> Some (Idle empty_selections, connected, fatal)
           | Some dest \<Rightarrow>
               (if dest \<in> connected then Some (Idle 0, connected, fatal)
                else Some (Connecting dest, insert dest connected, fatal))))"

text \<open>The second stage: the outcome of \<open>BitcoinPeer::new\<close>.\<close>

definition thread_connected ::
    "destination \<Rightarrow> net_error + 'tx bitcoin_peer \<Rightarrow> destination set \<Rightarrow> 'tx peer_thread \<times> destination set" where
  "thread_connected dest outcome connected =
     (case outcome of
        Inr peer \<Rightarrow> (Serving dest peer, connected)
      | Inl _ \<Rightarrow> (Idle 0, connected - {dest}))"

text \<open>One turn of the inner loop; the boolean says whether the loop goes on.\<close>

definition thread_turn ::
    "('c, 'e, 'tx, 'b) kernel \<Rightarrow> bool \<Rightarrow> instant \<Rightarrow> net_error + 'tx network_message \<Rightarrow> 'tx bitcoin_peer
       \<Rightarrow> ('c, 'b) node_state \<Rightarrow> (bool \<times> 'tx bitcoin_peer \<times> ('c, 'b) node_state) option" where
  "thread_turn K running now msg p ns =
     (if \<not> running then Some (False, p, ns)
      else if is_stalled p now then Some (False, p, ns)
      else map_option (\<lambda>(res, p, ns). (case res of Inl _ \<Rightarrow> False | Inr _ \<Rightarrow> True, p, ns))
             (receive_and_process_message K now msg p ns))"

text \<open>After the inner loop: give back what was not received and free the destination.\<close>

definition thread_leave ::
    "block_hash list \<Rightarrow> destination \<Rightarrow> 'tx bitcoin_peer \<Rightarrow> 'b download_state \<Rightarrow> destination set
       \<Rightarrow> 'b download_state \<times> destination set" where
  "thread_leave order dest p d connected = (release_in_flight order p d, connected - {dest})"

section \<open>Feelers, flushing, broadcasting\<close>

definition flush_peers ::
    "(addr_v2 \<Rightarrow> u8 list) \<Rightarrow> save_faults \<Rightarrow> path \<Rightarrow> table \<Rightarrow> file_system \<Rightarrow> file_system" where
  "flush_peers enc fl p t fs = snd (addr_table_save enc fl p t fs)"

definition record_destination :: "peer_record \<Rightarrow> destination" where
  "record_destination r = \<lparr>dest_addr = fst (network_addr r), dest_port = snd (network_addr r)\<rparr>"

text \<open>
  \<open>connects\<close> is the connection attempt to a destination; \<open>now1\<close> and \<open>now2\<close> are the
  clock readings of the report.
\<close>

definition open_feeler ::
    "table_cfg \<Rightarrow> u64 \<Rightarrow> (nat \<Rightarrow> u64 \<times> duration) \<Rightarrow> (destination \<Rightarrow> (net_error + 'r) option)
       \<Rightarrow> duration \<Rightarrow> duration \<Rightarrow> table \<Rightarrow> table option" where
  "open_feeler c h env connects now1 now2 t =
     (case select c h env t of
        None \<Rightarrow> None
      | Some None \<Rightarrow> Some t
      | Some (Some r) \<Rightarrow>
          (case connects (record_destination r) of
             None \<Rightarrow> None
           | Some (Inr _) \<Rightarrow> Some (table_successful_connection c now1 now2 t r)
           | Some (Inl _) \<Rightarrow> Some (table_failed_connection c now1 t r)))"

text \<open>
  The feeler and flush threads wake every second.  A round of the feeler thread has the clock
  when it checks and when it is done; the flush thread has in each round the clock, the
  failures of the save, the table then and the clock after, and saves once more when the node
  stops.
\<close>

definition feeler_interval :: duration where "feeler_interval = from_secs 30"
definition flush_peers_interval :: duration where "flush_peers_interval = from_secs (60 * 10)"

definition feeler_round ::
    "table_cfg \<Rightarrow> u64 \<Rightarrow> (nat \<Rightarrow> u64 \<times> duration) \<Rightarrow> (destination \<Rightarrow> (net_error + 'r) option) \<Rightarrow> duration \<Rightarrow> duration
       \<Rightarrow> instant \<Rightarrow> instant \<Rightarrow> instant \<times> table \<Rightarrow> (instant \<times> table) option" where
  "feeler_round c h env connects now1 now2 now finished st =
     (case st of (last_feeler, t) \<Rightarrow>
        if now - last_feeler < feeler_interval then Some (last_feeler, t)
        else map_option (Pair finished) (open_feeler c h env connects now1 now2 t))"

fun flush_thread ::
    "(addr_v2 \<Rightarrow> u8 list) \<Rightarrow> path \<Rightarrow> (instant \<times> save_faults \<times> table \<times> instant) list \<Rightarrow> save_faults \<Rightarrow> table \<Rightarrow> instant
       \<Rightarrow> file_system \<Rightarrow> file_system" where
  "flush_thread enc p [] fl t last_flush fs = flush_peers enc fl p t fs"
| "flush_thread enc p ((now, fl', t', finished) # rounds) fl t last_flush fs =
     (if now - last_flush < flush_peers_interval then flush_thread enc p rounds fl t last_flush fs
      else flush_thread enc p rounds fl t finished (flush_peers enc fl' p t' fs))"

text \<open>
  \<open>wait_for_pong\<close>: \<open>reads i\<close> is the clock before the \<open>i\<close>-th read and what the read
  returns.  The outer \<open>None\<close> is a wait that never ends.
\<close>

partial_function (option) wait_for_pong ::
    "u64 \<Rightarrow> instant \<Rightarrow> (nat \<Rightarrow> instant \<times> (net_error + 'tx network_message option)) \<Rightarrow> nat \<Rightarrow> bool option" where
  "wait_for_pong nonce deadline reads i =
     (if fst (reads i) < deadline then
        (case snd (reads i) of
           Inr m \<Rightarrow> (if m = Some (Pong nonce) then Some True else wait_for_pong nonce deadline reads (Suc i))
         | Inl e \<Rightarrow> (if e = Io WouldBlock \<or> e = Io TimedOut then wait_for_pong nonce deadline reads (Suc i)
                    else Some False))
      else Some False)"

record 'tx broadcast_env =
  be_elapsed :: duration
  be_hash :: u64
  be_select :: "nat \<Rightarrow> u64 \<times> duration"
  be_connects :: "destination \<Rightarrow> (net_error + unit) option"
  be_send_tx :: bool
  be_send_ping :: bool
  be_nonce :: u64
  be_deadline :: instant
  be_reads :: "nat \<Rightarrow> instant \<times> (net_error + 'tx network_message option)"
  be_now1 :: duration
  be_now2 :: duration

definition broadcast_timeout :: duration where "broadcast_timeout = from_secs 60"

text \<open>\<open>rounds i\<close> is what round \<open>i\<close> of the loop observes.\<close>

partial_function (option) broadcast_loop ::
    "table_cfg \<Rightarrow> (nat \<Rightarrow> 'tx broadcast_env) \<Rightarrow> nat \<Rightarrow> table \<Rightarrow> (bool \<times> table) option" where
  "broadcast_loop c rounds i t =
     (if be_elapsed (rounds i) < broadcast_timeout then
        (case select c (be_hash (rounds i)) (be_select (rounds i)) t of
           None \<Rightarrow> None
         | Some None \<Rightarrow> Some (False, t)
         | Some (Some r) \<Rightarrow>
             (case be_connects (rounds i) (record_destination r) of
                None \<Rightarrow> None
              | Some (Inl _) \<Rightarrow>
                  broadcast_loop c rounds (Suc i) (table_failed_connection c (be_now1 (rounds i)) t r)
              | Some (Inr _) \<Rightarrow>
                  (if be_send_tx (rounds i) \<and> be_send_ping (rounds i) then
                     (case wait_for_pong (be_nonce (rounds i)) (be_deadline (rounds i)) (be_reads (rounds i)) 0 of
                        None \<Rightarrow> None
                      | Some pong \<Rightarrow>
                          (if pong
                           then Some (True, table_successful_connection c (be_now1 (rounds i)) (be_now2 (rounds i)) t r)
                           else broadcast_loop c rounds (Suc i) t))
                   else broadcast_loop c rounds (Suc i) t)))
      else Some (False, t))"

section \<open>Waiting and broadcasting end\<close>

lemma wait_for_pong_result:
  assumes "i \<le> n" "deadline \<le> fst (reads n)"
  shows "\<exists>b. wait_for_pong nonce deadline reads i = Some b
     \<and> (b \<longrightarrow> (\<exists>j. i \<le> j \<and> j < n \<and> fst (reads j) < deadline \<and> snd (reads j) = Inr (Some (Pong nonce))))"
  using assms(1)
proof (induction "n - i" arbitrary: i)
  case 0
  then show ?case using assms(2) by (intro exI [of _ False]) (simp add: wait_for_pong.simps [of _ _ _ i])
next
  case (Suc k)
  then have IH: "\<exists>b. wait_for_pong nonce deadline reads (Suc i) = Some b
     \<and> (b \<longrightarrow> (\<exists>j. Suc i \<le> j \<and> j < n \<and> fst (reads j) < deadline \<and> snd (reads j) = Inr (Some (Pong nonce))))"
    by (intro Suc.hyps(1)) linarith+
  have "i < n" using Suc.hyps(2) by linarith
  then show ?case
    using IH
    by (cases "fst (reads i) < deadline"; cases "snd (reads i)")
      (auto simp: wait_for_pong.simps [of _ _ _ i] intro: Suc_leD)
qed

text \<open>Round \<open>i\<close> confirmed the transaction: connected, both messages sent, the pong read in time.\<close>

definition confirmed :: "'tx broadcast_env \<Rightarrow> destination \<Rightarrow> bool" where
  "confirmed env dest \<longleftrightarrow> be_connects env dest = Some (Inr ()) \<and> be_send_tx env \<and> be_send_ping env
     \<and> (\<exists>j. fst (be_reads env j) < be_deadline env \<and> snd (be_reads env j) = Inr (Some (Pong (be_nonce env))))"

lemma broadcast_loop_result:
  assumes "cfg_ok c" "broadcast_timeout \<le> be_elapsed (rounds n)"
    and "\<And>i. \<exists>j. be_deadline (rounds i) \<le> fst (be_reads (rounds i) j)"
    and "\<And>i dest. be_connects (rounds i) dest \<noteq> None"
    and "i \<le> n" "table_reachable c t"
  shows "\<exists>b t'. broadcast_loop c rounds i t = Some (b, t') \<and> table_reachable c t'
     \<and> (b \<longrightarrow> (\<exists>j dest. i \<le> j \<and> j < n \<and> confirmed (rounds j) dest))"
  using assms(5,6)
proof (induction "n - i" arbitrary: i t)
  case 0
  then show ?case using assms(2)
    by (intro exI [of _ False] exI [of _ t]) (simp add: broadcast_loop.simps [of c rounds i])
next
  case (Suc k)
  have lt: "i < n" using Suc.hyps(2) by linarith
  have IH: "\<exists>b t''. broadcast_loop c rounds (Suc i) t' = Some (b, t'') \<and> table_reachable c t''
     \<and> (b \<longrightarrow> (\<exists>j dest. i \<le> j \<and> j < n \<and> confirmed (rounds j) dest))" if "table_reachable c t'" for t'
    using Suc.hyps(1) [of "Suc i" t'] Suc.hyps(2) lt that Suc_leD by fastforce
  obtain res where sel: "select c (be_hash (rounds i)) (be_select (rounds i)) t = Some res"
    using select_stored [OF Suc.prems(2) assms(1)] by blast
  show ?case
  proof (cases "be_elapsed (rounds i) < broadcast_timeout")
    case False
    then show ?thesis using Suc.prems
      by (intro exI [of _ False] exI [of _ t]) (simp add: broadcast_loop.simps [of c rounds i])
  next
    case True
    note unfold = broadcast_loop.simps [of c rounds i] sel
    show ?thesis
    proof (cases res)
      case None
      then show ?thesis using True Suc.prems by (intro exI [of _ False] exI [of _ t]) (simp add: unfold)
    next
      case (Some r)
      let ?dest = "record_destination r"
      obtain out where out: "be_connects (rounds i) ?dest = Some out" using assms(4) by blast
      obtain j0 where "be_deadline (rounds i) \<le> fst (be_reads (rounds i) j0)" using assms(3) by blast
      from wait_for_pong_result [where reads = "be_reads (rounds i)", OF le0 this, of "be_nonce (rounds i)"]
      obtain pong where pong: "wait_for_pong (be_nonce (rounds i)) (be_deadline (rounds i)) (be_reads (rounds i)) 0 = Some pong"
        "pong \<longrightarrow> (\<exists>j. fst (be_reads (rounds i) j) < be_deadline (rounds i)
            \<and> snd (be_reads (rounds i) j) = Inr (Some (Pong (be_nonce (rounds i)))))" by blast
      show ?thesis
      proof (cases out)
        case (Inl e)
        then show ?thesis
          using IH [OF table_reachable.failure [OF Suc.prems(2)]] True Some out by (simp add: unfold)
      next
        case (Inr u)
        show ?thesis
        proof (cases "be_send_tx (rounds i) \<and> be_send_ping (rounds i) \<and> pong")
          case False
          then show ?thesis
            using IH [OF Suc.prems(2)] True Some out Inr pong(1) by (auto simp: unfold)
        next
          case yes: True
          then have "confirmed (rounds i) ?dest"
            using pong(2) out Inr by (auto simp: confirmed_def)
          then show ?thesis
            using yes True Some out Inr pong(1) lt table_reachable.success [OF Suc.prems(2)]
            by (auto simp: unfold)
        qed
      qed
    qed
  qed
qed

fun trigger_times :: "nat \<Rightarrow> fatal_shutdown \<Rightarrow> fatal_shutdown option" where
  "trigger_times 0 f = Some f"
| "trigger_times (Suc n) f = Option.bind (trigger f) (trigger_times n)"

lemma trigger_times_idle: "triggered f \<Longrightarrow> trigger_times n f = Some f"
  by (induction n) (simp_all add: trigger_def)

text \<open>However often a fatal error is reported, the signal is sent once, at the first report.\<close>

lemma fatal_signal_once:
  assumes "\<not> triggered f" "signal_open f"
  shows "trigger_times (Suc n) f = Some (f\<lparr>triggered := True, signals := signals f + 1\<rparr>)"
  using assms by (simp add: trigger_def trigger_times_idle)

section \<open>Properties\<close>

text \<open>
  C27: Broadcasting a transaction always ends once a minute has passed, keeps the address
  book well formed, and reports success only if in some round before that a peer was
  connected, was sent the transaction and a ping, and answered the ping in time.
\<close>

theorem broadcast_confirmed:
  assumes "cfg_ok c" "table_reachable c t" "broadcast_timeout \<le> be_elapsed (rounds n)"
    and "\<forall>i. \<exists>j. be_deadline (rounds i) \<le> fst (be_reads (rounds i) j)"
    and "\<forall>i dest. be_connects (rounds i) dest \<noteq> None"
  shows "\<exists>success t'. broadcast_loop c rounds 0 t = Some (success, t') \<and> table_reachable c t'
     \<and> (success \<longrightarrow> (\<exists>j < n. \<exists>dest. confirmed (rounds j) dest))"
  using broadcast_loop_result [where c = c and rounds = rounds and n = n and i = 0 and t = t] assms by auto

text \<open>
  C14: The peers file survives: however the clock runs and whichever saves of the flush
  thread fail at whichever step, the file then loads as it did before or as one of the tables
  that were to be saved; when the last save does not fail, as the table at the end.
\<close>

theorem peers_file_survives:
  assumes "addr_codec enc dec D" "with_file_name p ''peers.tmp'' \<noteq> p" "storable_table (addr_table_cfg h) D t"
    and "\<forall>(now, fl', t', finished) \<in> set rounds. storable_table (addr_table_cfg h) D t'"
  defines "load \<equiv> addr_table_load h dec p"
  shows "restores h t (load (flush_thread enc p rounds no_faults t last_flush fs))
     \<and> (load (flush_thread enc p rounds fl t last_flush fs) = load fs
        \<or> restores h t (load (flush_thread enc p rounds fl t last_flush fs))
        \<or> (\<exists>(now, fl', t', finished) \<in> set rounds. restores h t' (load (flush_thread enc p rounds fl t last_flush fs))))"
  using assms(4)
proof (induction rounds arbitrary: last_flush fs)
  case Nil
  then show ?case
    using address_book_save_load [OF assms(1,3,2), of fs fl] by (auto simp: flush_peers_def load_def)
next
  case (Cons r rounds)
  obtain now fl' t' finished where r: "r = (now, fl', t', finished)" by (cases r)
  have saved: "restores h t' (load (flush_peers enc fl' p t' fs)) \<or> load (flush_peers enc fl' p t' fs) = load fs"
    using address_book_save_load [OF assms(1) _ assms(2), of h t' fs fl'] Cons.prems r
    by (auto simp: flush_peers_def load_def)
  show ?case
  proof (cases "now - last_flush < flush_peers_interval")
    case True
    then show ?thesis using Cons.IH [of last_flush fs] Cons.prems r by auto
  next
    case False
    then show ?thesis using Cons.IH [of finished "flush_peers enc fl' p t' fs"] Cons.prems r saved by auto
  qed
qed

section \<open>Witnesses\<close>

theorem peers_file_survives_witness:
  "restores demo_hash demo_book (addr_table_load demo_hash demo_dec ''/d/peers.dat''
     (flush_thread demo_enc ''/d/peers.dat'' [(from_secs 700, no_faults\<lparr>rename_fault := Some UnexpectedEof\<rparr>, demo_book, 0)] no_faults
       demo_book 0 Map.empty))"
  using peers_file_survives [OF demo_codec _ demo_book_storable, of "''/d/peers.dat''"
      "[(from_secs 700, no_faults\<lparr>rename_fault := Some UnexpectedEof\<rparr>, demo_book, 0)]" 0 Map.empty] demo_book_storable
  by (simp add: with_file_name_def)

definition demo_round :: "nat \<Rightarrow> unit broadcast_env" where
  "demo_round i = \<lparr>be_elapsed = from_secs (40 * i), be_hash = 0, be_select = (\<lambda>_. (0, 0)),
     be_connects = (\<lambda>_. Some (Inr ())), be_send_tx = True, be_send_ping = True, be_nonce = 7,
     be_deadline = 5, be_reads = (\<lambda>j. (3 * j, if j = 1 then Inr (Some (Pong 7)) else Inr None)),
     be_now1 = 0, be_now2 = 0\<rparr>"

theorem broadcast_confirmed_witness:
  "\<exists>success t'. broadcast_loop demo_cfg demo_round 0 demo_table = Some (success, t') \<and> table_reachable demo_cfg t'
     \<and> (success \<longrightarrow> (\<exists>j < 2. \<exists>dest. confirmed (demo_round j) dest))"
proof (rule broadcast_confirmed [OF demo_cfg_ok demo_reachable(2)])
  show "broadcast_timeout \<le> be_elapsed (demo_round 2)"
    by (simp add: broadcast_timeout_def demo_round_def from_secs_def)
  show "\<forall>i. \<exists>j. be_deadline (demo_round i) \<le> fst (be_reads (demo_round i) j)"
    by (auto simp: demo_round_def intro: exI [of _ 2])
qed (simp add: demo_round_def)

end
