(* ===== verification/Peer_System.thy ===== *)
theory Peer_System
  imports Manager
begin

text \<open>
  All peer threads together with the block processing thread, as a step relation: threads
  select destinations, connect, serve messages, stall or fail and leave, in any
  interleaving, while buffered blocks are taken and the kernel's chainstate moves on.  Each
  step is one handler of the code under the locks it takes.  The two extra components of a
  run are the blocks that were ever wanted and those that were delivered.
\<close>

record ('c, 'b, 'tx) net_system =
  sys_node :: "('c, 'b) node_state"
  sys_connected :: "destination set"
  sys_threads :: "nat \<Rightarrow> 'tx peer_thread"
  sys_fatal :: fatal_shutdown

definition set_thread :: "nat \<Rightarrow> 'tx peer_thread \<Rightarrow> ('c, 'b, 'tx) net_system \<Rightarrow> ('c, 'b, 'tx) net_system" where
  "set_thread i th s = s\<lparr>sys_threads := (sys_threads s)(i := th)\<rparr>"

definition system_start :: "'c \<Rightarrow> ('c, 'b, 'tx) net_system" where
  "system_start c = \<lparr>sys_node = \<lparr>chainman = c, download = download_new, addr_sent = [], addr_open = True\<rparr>,
     sys_connected = {}, sys_threads = (\<lambda>_. Idle 0), sys_fatal = fatal_new\<rparr>"

inductive net_step ::
    "('c, 'e, 'tx, 'b) kernel \<Rightarrow> ('c \<Rightarrow> bool) \<Rightarrow> bool \<Rightarrow> ('c, 'b, 'tx) net_system \<Rightarrow> block_hash set
       \<Rightarrow> ('c, 'b, 'tx) net_system \<Rightarrow> bool"
  for K ok proxy where
  select: "sys_threads s i = Idle n \<Longrightarrow>
     thread_select proxy selected n (sys_connected s) (sys_fatal s) = Some (th, connected, fatal) \<Longrightarrow>
     net_step K ok proxy s {} (set_thread i th (s\<lparr>sys_connected := connected, sys_fatal := fatal\<rparr>))"
| connected: "sys_threads s i = Connecting dest \<Longrightarrow>
     peer_new K env net proxy writer_alive dest (sys_node s) = Some outcome \<Longrightarrow>
     thread_connected dest outcome (sys_connected s) = (th, connected) \<Longrightarrow>
     net_step K ok proxy s {} (set_thread i th (s\<lparr>sys_connected := connected\<rparr>))"
| turn: "sys_threads s i = Serving dest p \<Longrightarrow>
     thread_turn K running now msg p (sys_node s) = Some (goes_on, p', ns') \<Longrightarrow>
     D = (case msg of Inr m \<Rightarrow> if running \<and> \<not> is_stalled p now
            then delivered K (state_machine p) m (download (sys_node s)) else {} | Inl _ \<Rightarrow> {}) \<Longrightarrow>
     net_step K ok proxy s D (set_thread i (Serving dest p') (s\<lparr>sys_node := ns'\<rparr>))"
| leave: "sys_threads s i = Serving dest p \<Longrightarrow>
     enumerates order (inventory_of (state_machine p)) \<Longrightarrow>
     thread_leave order dest p (download (sys_node s)) (sys_connected s) = (d, connected) \<Longrightarrow>
     net_step K ok proxy s {}
       (set_thread i (Idle 0) (s\<lparr>sys_node := (sys_node s)\<lparr>download := d\<rparr>, sys_connected := connected\<rparr>))"
| take_block: "enumerates order (dom (buffer (download (sys_node s)))) \<Longrightarrow>
     node_take_connectable K order (sys_node s) = (b, ns') \<Longrightarrow>
     net_step K ok proxy s {} (s\<lparr>sys_node := ns'\<rparr>)"
| chain_moves: "ok c \<Longrightarrow> net_step K ok proxy s {} (s\<lparr>sys_node := (sys_node s)\<lparr>chainman := c\<rparr>\<rparr>)"

inductive net_run ::
    "('c, 'e, 'tx, 'b) kernel \<Rightarrow> ('c \<Rightarrow> bool) \<Rightarrow> bool \<Rightarrow> ('c, 'b, 'tx) net_system \<Rightarrow> block_hash set \<Rightarrow> block_hash set \<Rightarrow> bool"
  for K ok proxy where
  start: "ok c \<Longrightarrow> net_run K ok proxy (system_start c) {} {}"
| step: "net_run K ok proxy s W D \<Longrightarrow> net_step K ok proxy s D' s' \<Longrightarrow>
     net_run K ok proxy s' (W \<union> wanted_blocks (download (sys_node s'))) (D \<union> D')"

section \<open>Who answers for what\<close>

definition thread_inventory :: "'tx peer_thread \<Rightarrow> block_hash set" where
  "thread_inventory th = (case th of Serving _ p \<Rightarrow> inventory_of (state_machine p) | _ \<Rightarrow> {})"

definition thread_destination :: "'tx peer_thread \<Rightarrow> destination option" where
  "thread_destination th = (case th of Connecting d \<Rightarrow> Some d | Serving d _ \<Rightarrow> Some d | _ \<Rightarrow> None)"

definition thread_ok :: "'tx peer_thread \<Rightarrow> bool" where
  "thread_ok th = (case th of Serving _ p \<Rightarrow> state_machine p \<noteq> AwaitingBlock {} | _ \<Rightarrow> True)"

lemma thread_simps [simp]:
  "thread_inventory (Idle n) = {}" "thread_inventory (Connecting d) = {}" "thread_inventory Ended = {}"
  "thread_inventory (Serving d p) = inventory_of (state_machine p)"
  "thread_destination (Idle n) = None" "thread_destination (Connecting d) = Some d"
  "thread_destination Ended = None" "thread_destination (Serving d p) = Some d"
  "thread_ok (Idle n)" "thread_ok (Connecting d)" "thread_ok Ended"
  "thread_ok (Serving d p) = (state_machine p \<noteq> AwaitingBlock {})"
  by (simp_all add: thread_inventory_def thread_destination_def thread_ok_def)

definition holder :: "('c, 'b, 'tx) net_system \<Rightarrow> nat \<Rightarrow> destination option" where
  "holder s i = thread_destination (sys_threads s i)"

lemma holder_node [simp]: "holder (s\<lparr>sys_node := ns\<rparr>) = holder s"
  by (simp add: holder_def fun_eq_iff)

definition system_inv :: "('c \<Rightarrow> bool) \<Rightarrow> ('c, 'b, 'tx) net_system \<Rightarrow> bool" where
  "system_inv ok s \<longleftrightarrow>
     ok (chainman (sys_node s))
     \<and> in_flight (download (sys_node s)) \<subseteq> (\<Union>i. thread_inventory (sys_threads s i))
     \<and> (\<forall>i. thread_ok (sys_threads s i))
     \<and> ran (holder s) = sys_connected s \<and> inj_on (holder s) (dom (holder s))"

lemma system_inv_start: "ok c \<Longrightarrow> system_inv ok (system_start c)"
  by (auto simp: system_inv_def system_start_def download_new_def holder_def ran_def inj_on_def)

lemma holder_update:
  assumes "ran f = A" "inj_on f (dom f)"
    and "v = f i \<and> B = A \<or> v = None \<and> B = A - set_option (f i)
       \<or> f i = None \<and> (\<exists>d. v = Some d \<and> d \<notin> A \<and> B = insert d A)"
  shows "ran (f(i := v)) = B \<and> inj_on (f(i := v)) (dom (f(i := v)))"
  using assms(3)
proof (elim disjE conjE exE)
  assume "v = f i" "B = A"
  then show ?thesis using assms by simp
next
  assume v: "v = None" and B: "B = A - set_option (f i)"
  have "x \<notin> ran (f(i := None))" if "f i = Some x" for x
  proof
    assume "x \<in> ran (f(i := None))"
    then obtain j where "j \<noteq> i" "f j = Some x" by (auto simp: ran_def split: if_splits)
    then show False using that inj_onD [OF assms(2), of j i] by (simp add: domI)
  qed
  moreover have "ran f \<subseteq> ran (f(i := None)) \<union> set_option (f i)"
  proof
    fix x assume "x \<in> ran f"
    then obtain j where j: "f j = Some x" by (auto simp: ran_def)
    then have "j \<noteq> i \<Longrightarrow> (f(i := None)) j = Some x" by simp
    with j show "x \<in> ran (f(i := None)) \<union> set_option (f i)" by (cases "j = i") (auto intro: ranI)
  qed
  ultimately have "ran (f(i := None)) = B"
    using B assms(1) by (auto simp: ran_def split: if_splits)
  moreover have "inj_on (f(i := None)) (dom (f(i := None)))"
    using assms(2) by (auto simp: inj_on_def)
  ultimately show ?thesis using v by simp
next
  fix d assume "f i = None" "v = Some d" "d \<notin> A" "B = insert d A"
  moreover have "f j \<noteq> Some d" for j using \<open>d \<notin> A\<close> assms(1) by (auto simp: ran_def)
  ultimately show ?thesis using assms(1,2) by (auto simp: inj_on_def)
qed

text \<open>Replacing one thread: what the invariant needs of the new one.\<close>

lemma system_inv_thread:
  assumes inv: "system_inv ok s"
    and ok: "ok (chainman ns)" "thread_ok th"
    and fl: "in_flight (download ns) \<subseteq> (in_flight (download (sys_node s)) - thread_inventory (sys_threads s i))
               \<union> thread_inventory th"
    and dest: "thread_destination th = thread_destination (sys_threads s i) \<and> conn = sys_connected s
       \<or> thread_destination th = None \<and> conn = sys_connected s - set_option (thread_destination (sys_threads s i))
       \<or> thread_destination (sys_threads s i) = None
           \<and> (\<exists>d. thread_destination th = Some d \<and> d \<notin> sys_connected s \<and> conn = insert d (sys_connected s))"
  shows "system_inv ok (set_thread i th (s\<lparr>sys_node := ns, sys_connected := conn, sys_fatal := f\<rparr>))"
proof -
  have cover: "in_flight (download ns) \<subseteq> (\<Union>j. thread_inventory (((sys_threads s)(i := th)) j))"
  proof
    fix h assume "h \<in> in_flight (download ns)"
    then consider "h \<in> thread_inventory th"
      | "h \<in> in_flight (download (sys_node s))" "h \<notin> thread_inventory (sys_threads s i)"
      using fl by blast
    then show "h \<in> (\<Union>j. thread_inventory (((sys_threads s)(i := th)) j))"
    proof cases
      case 1
      then show ?thesis by (intro UN_I [of i]) simp_all
    next
      case 2
      then obtain j where "h \<in> thread_inventory (sys_threads s j)"
        using inv by (auto simp: system_inv_def)
      with 2 show ?thesis by (intro UN_I [of j]) auto
    qed
  qed
  have holds: "ran (holder s) = sys_connected s" "inj_on (holder s) (dom (holder s))"
    using inv by (simp_all add: system_inv_def)
  have "holder (set_thread i th (s\<lparr>sys_node := ns, sys_connected := conn, sys_fatal := f\<rparr>))
      = (holder s)(i := thread_destination th)"
    by (auto simp: holder_def set_thread_def)
  moreover have "ran ((holder s)(i := thread_destination th)) = conn
      \<and> inj_on ((holder s)(i := thread_destination th)) (dom ((holder s)(i := thread_destination th)))"
    using dest holds by (intro holder_update [of _ "sys_connected s"]) (simp_all add: holder_def)
  ultimately show ?thesis
    using cover ok inv by (simp add: system_inv_def set_thread_def)
qed

section \<open>Every step keeps the invariant and loses no block\<close>

lemma receive_effect:
  assumes "kernel_ok K ok" "ok (chainman ns)"
    and "receive_and_process_message K now msg p ns = Some (res, p', ns')"
  shows "ok (chainman ns') \<and> fair_step (case msg of Inr m \<Rightarrow> delivered K (state_machine p) m (download ns) | Inl _ \<Rightarrow> {})
     (state_machine p) (download ns) (state_machine p') (download ns')"
proof (cases msg)
  case (Inl e)
  then show ?thesis
    using assms by (auto simp: receive_and_process_message_def fair_step_refl)
next
  case (Inr m)
  obtain sm' msgs ns1 where run: "process_message K (state_machine p) m (peer_addr p) ns = Some (sm', msgs, ns1)"
    "ok (chainman ns1)" "fair_step (delivered K (state_machine p) m (download ns)) (state_machine p) (download ns) sm' (download ns1)"
    using process_message_effect [OF assms(1,2)] by blast
  have "ns' = ns1" "state_machine p' = sm'"
    using assms(3) run(1) Inr
    by (auto simp: receive_and_process_message_def Let_def split: if_splits)
  then show ?thesis using run Inr by simp
qed

lemma thread_turn_effect:
  assumes "kernel_ok K ok" "ok (chainman ns)" "thread_turn K running now msg p ns = Some (goes_on, p', ns')"
  shows "ok (chainman ns') \<and> fair_step (case msg of Inr m \<Rightarrow> if running \<and> \<not> is_stalled p now
            then delivered K (state_machine p) m (download ns) else {} | Inl _ \<Rightarrow> {})
     (state_machine p) (download ns) (state_machine p') (download ns')"
proof (cases "running \<and> \<not> is_stalled p now")
  case False
  then show ?thesis
    using assms by (cases msg) (auto simp: thread_turn_def fair_step_refl split: if_splits)
next
  case True
  then obtain res where "receive_and_process_message K now msg p ns = Some (res, p', ns')"
    using assms(3) by (auto simp: thread_turn_def)
  from receive_effect [OF assms(1,2) this] True show ?thesis by (cases msg) simp_all
qed

lemma peer_new_waits: "peer_new K env net proxy w dest ns = Some (Inr p) \<Longrightarrow> state_machine p = AwaitingHeaders"
  by (auto simp: peer_new_def Let_def split: option.splits sum.splits if_splits)

lemma release_in_flight_effect:
  assumes "enumerates order (inventory_of (state_machine p))"
  shows "in_flight (release_in_flight order p d) \<subseteq> in_flight d - inventory_of (state_machine p)"
    and "wanted_blocks d \<subseteq> wanted_blocks (release_in_flight order p d)"
  using assms ledger.give_back_owed [of order d] ledger.give_back_wanted [of order d]
  by (auto simp: release_in_flight_def enumerates_def split: peer_state_machine.splits)

lemma node_take_connectable_effect:
  assumes "enumerates order (dom (buffer (download ns)))" "node_take_connectable K order ns = (b, ns')"
  shows "chainman ns' = chainman ns \<and> in_flight (download ns') = in_flight (download ns)
     \<and> queue (download ns') = queue (download ns)"
  using take_connectable_cases [OF assms(1), of "kernel_block_hash K" "is_on_active_chain K (chainman ns)"] assms(2)
  by (auto simp: node_take_connectable_def split: prod.splits)

lemma net_step_effect:
  assumes "net_step K ok proxy s D s'" "kernel_ok K ok" "system_inv ok s"
  shows "system_inv ok s' \<and> wanted_blocks (download (sys_node s)) - D \<subseteq> wanted_blocks (download (sys_node s'))"
  using assms(1)
proof cases
  case (select i n selected th connected fatal)
  have none: "thread_destination (sys_threads s i) = None" "thread_inventory (sys_threads s i) = {}"
    using select(3) by simp_all
  have "system_inv ok (set_thread i th (s\<lparr>sys_node := sys_node s, sys_connected := connected, sys_fatal := fatal\<rparr>))"
    using select(4) none assms(3)
    by (intro system_inv_thread [OF assms(3)])
      (auto simp: thread_select_def system_inv_def split: option.splits if_splits)
  then show ?thesis using select by (simp add: set_thread_def)
next
  case (connected i dest env net writer_alive outcome th connected)
  have "outcome = Inr p \<Longrightarrow> state_machine p = AwaitingHeaders" for p
    using connected(4) peer_new_waits by blast
  then have th: "thread_ok th" "thread_inventory th = {}"
    using connected(5) by (cases outcome; auto simp: thread_connected_def)+
  have held: "thread_destination (sys_threads s i) = Some dest" "thread_inventory (sys_threads s i) = {}"
    using connected(3) by simp_all
  have "system_inv ok (set_thread i th (s\<lparr>sys_node := sys_node s, sys_connected := connected, sys_fatal := sys_fatal s\<rparr>))"
  proof (rule system_inv_thread [OF assms(3)])
    show "ok (chainman (sys_node s))" using assms(3) by (simp add: system_inv_def)
    show "thread_destination th = thread_destination (sys_threads s i) \<and> connected = sys_connected s
       \<or> thread_destination th = None \<and> connected = sys_connected s - set_option (thread_destination (sys_threads s i))
       \<or> thread_destination (sys_threads s i) = None
           \<and> (\<exists>d. thread_destination th = Some d \<and> d \<notin> sys_connected s \<and> connected = insert d (sys_connected s))"
      using connected(5) held by (cases outcome) (auto simp: thread_connected_def)
  qed (simp_all add: th held)
  then show ?thesis using connected(1,2) by (simp add: set_thread_def)
next
  case (turn i dest p running now msg goes_on p' ns')
  have okc: "ok (chainman (sys_node s))" and thok: "thread_ok (sys_threads s i)"
    using assms(3) by (simp_all add: system_inv_def)
  note eff = thread_turn_effect [OF assms(2) okc turn(3)]
  have fair: "fair_step D (state_machine p) (download (sys_node s)) (state_machine p') (download ns')"
    unfolding turn(4) using eff by blast
  have "system_inv ok (set_thread i (Serving dest p')
      (s\<lparr>sys_node := ns', sys_connected := sys_connected s, sys_fatal := sys_fatal s\<rparr>))"
  proof (rule system_inv_thread [OF assms(3)])
    show "ok (chainman ns')" using eff by blast
    show "thread_ok (Serving dest p')" using thok fair turn(2) by (auto simp: fair_step_def)
    show "in_flight (download ns') \<subseteq> (in_flight (download (sys_node s)) - thread_inventory (sys_threads s i))
               \<union> thread_inventory (Serving dest p')"
      using fair turn(2) by (simp add: fair_step_def)
  qed (simp add: turn(2))
  then show ?thesis using turn(1) fair by (simp add: set_thread_def fair_step_def)
next
  case (leave i dest p order d connected)
  have d: "d = release_in_flight order p (download (sys_node s))" "connected = sys_connected s - {dest}"
    using leave by (simp_all add: thread_leave_def)
  have "system_inv ok (set_thread i (Idle 0) (s\<lparr>sys_node := (sys_node s)\<lparr>download := d\<rparr>,
      sys_connected := connected, sys_fatal := sys_fatal s\<rparr>))"
    using leave d release_in_flight_effect [OF leave(4), of "download (sys_node s)"] assms(3)
    by (intro system_inv_thread [OF assms(3)]) (auto simp: system_inv_def)
  then show ?thesis
    using leave d release_in_flight_effect [OF leave(4), of "download (sys_node s)"] by (auto simp: set_thread_def)
next
  case (take_block order b ns')
  then show ?thesis
    using assms(3) node_take_connectable_effect [OF take_block(3,4)]
    by (simp add: system_inv_def wanted_blocks_def)
next
  case (chain_moves c)
  then show ?thesis using assms(3) by (auto simp: system_inv_def)
qed

lemma net_run_inv:
  assumes "net_run K ok proxy s W D" "kernel_ok K ok"
  shows "system_inv ok s \<and> W \<subseteq> D \<union> wanted_blocks (download (sys_node s))"
  using assms(1)
proof (induction rule: net_run.induct)
  case (start c)
  then show ?case by (simp add: system_inv_start)
next
  case (step s W D D' s')
  then show ?case using net_step_effect [OF step.hyps(2) assms(2)] by blast
qed

section \<open>Properties\<close>

text \<open>
  C1: No block is lost.  In every run, with any number of peers connecting, serving,
  stalling and disconnecting in any order, each block that was ever queued or requested has
  been delivered, or is in the queue, or is in flight and in the inventory of a peer that is
  still being served.
\<close>

theorem no_block_lost:
  assumes "kernel_ok K ok" "net_run K ok proxy s W D"
  shows "W \<subseteq> D \<union> set (queue (download (sys_node s)))
     \<union> {h. \<exists>i dest p I. sys_threads s i = Serving dest p \<and> state_machine p = AwaitingBlock I \<and> h \<in> I}"
proof
  fix h assume "h \<in> W"
  note run = net_run_inv [OF assms(2,1)]
  then consider "h \<in> D" | "h \<in> set (queue (download (sys_node s)))" | "h \<in> in_flight (download (sys_node s))"
    using \<open>h \<in> W\<close> by (auto simp: wanted_blocks_def)
  then show "h \<in> D \<union> set (queue (download (sys_node s)))
     \<union> {h. \<exists>i dest p I. sys_threads s i = Serving dest p \<and> state_machine p = AwaitingBlock I \<and> h \<in> I}"
  proof cases
    case 3
    then obtain i where "h \<in> thread_inventory (sys_threads s i)"
      using run by (auto simp: system_inv_def)
    then show ?thesis
      by (auto simp: thread_inventory_def inventory_of_def split: peer_thread.splits peer_state_machine.splits)
  qed auto
qed

text \<open>
  C16: When no peer is connected nothing is in flight: every block that was ever wanted
  and not delivered is back in the queue.
\<close>

theorem disconnected_requeues_all:
  assumes "kernel_ok K ok" "net_run K ok proxy s W D" "sys_connected s = {}"
  shows "in_flight (download (sys_node s)) = {} \<and> W - D \<subseteq> set (queue (download (sys_node s)))"
proof -
  note run = net_run_inv [OF assms(2,1)]
  have "thread_destination (sys_threads s i) = None" for i
    using run assms(3) by (cases "holder s i") (auto simp: system_inv_def ran_def holder_def)
  then have "thread_inventory (sys_threads s i) = {}" for i
    by (metis option.distinct(1) peer_thread.exhaust thread_simps(1-3,8))
  then have "in_flight (download (sys_node s)) = {}" using run by (auto simp: system_inv_def)
  then show ?thesis using run by (auto simp: wanted_blocks_def)
qed

text \<open>
  C9: No two peer threads connect to or serve the same destination at the same time, the
  set of connected destinations is exactly what the threads hold, and a peer that waits for
  blocks always waits for at least one.
\<close>

theorem destinations_unique:
  assumes "kernel_ok K ok" "net_run K ok proxy s W D"
  shows "(\<forall>i j dest. thread_destination (sys_threads s i) = Some dest \<longrightarrow>
            thread_destination (sys_threads s j) = Some dest \<longrightarrow> i = j)
     \<and> sys_connected s = {dest. \<exists>i. thread_destination (sys_threads s i) = Some dest}
     \<and> (\<forall>i dest p. sys_threads s i = Serving dest p \<longrightarrow> state_machine p \<noteq> AwaitingBlock {})"
proof -
  have inv: "system_inv ok s" using net_run_inv [OF assms(2,1)] by simp
  then have "ran (holder s) = sys_connected s" "inj_on (holder s) (dom (holder s))"
    by (simp_all add: system_inv_def)
  moreover from inv have "state_machine p \<noteq> AwaitingBlock {}" if "sys_threads s i = Serving dest p" for i dest p
    using that unfolding system_inv_def by (metis thread_simps(12))
  ultimately show ?thesis by (auto simp: ran_def holder_def inj_on_def dom_def)
qed

section \<open>Witnesses\<close>

text \<open>A peer is selected, connects, announces no further headers, is asked for two blocks and leaves.\<close>

definition demo_dest :: destination where
  "demo_dest = \<lparr>dest_addr = Ipv4 [10, 0, 0, 1], dest_port = 8333\<rparr>"

definition demo_attempt :: "unit attempt_env" where
  "demo_attempt = \<lparr>ae_wire = demo_wire, ae_sha3 = (\<lambda>_. []),
     ae_dial = Inr (demo_stream (concat (map (enc_raw demo_wire 7) [Version demo_version, Verack]))),
     ae_unix_time = 0, ae_unix_secs = 1700000003, ae_nonce = 7, ae_now = 0\<rparr>"

definition demo_node_start :: "(unit, unit block) node_state" where
  "demo_node_start = \<lparr>chainman = (), download = download_new, addr_sent = [], addr_open = True\<rparr>"

lemma demo_peer_start:
  "\<exists>h ms. start_handshake (has_services demo_wire) (command demo_wire) (peer_config net height) 1700000003
     (Version demo_version) 7 = Some (Inr (h, ms))"
  by (simp add: start_handshake_def demo_wire_def demo_version_def config_new_def wtxid_relay_version_def
      min_peer_proto_version_def sendheaders_version_def demo_has_def checked_sub_i64_def peer_config_def
      user_agent_def offer_services_def set_service_requirement_def request_addr_def our_height_def change_network_def)

lemma demo_connects:
  "\<exists>r. manager_connect demo_attempt (peer_config Bitcoin height) demo_dest False (from_secs 60) = Some (Inr r)"
proof -
  let ?c = "peer_config Bitcoin height"
  let ?s = "demo_stream (concat (map (enc_raw demo_wire 7) [Version demo_version, Verack]))
      \<lparr>read_timeout := Some (from_secs 60), write_timeout := tp_write timeout_params_default\<rparr>"
  obtain h ms where "start_handshake (has_services demo_wire) (command demo_wire) ?c 1700000003
     (Version demo_version) 7 = Some (Inr (h, ms))" using demo_peer_start by blast
  then have "\<exists>metrics s'. handshake demo_wire ?c 0 1700000003 7 0 ?s = Some (Inr (metrics, s'))"
    using handshake_success [OF demo_wire_ok, of "[]" demo_version ?s ?c "[]" 1700000003 7 h ms 0 0]
    by (auto simp: demo_messages_def demo_stream_def demo_wire_def)
  moreover have "manager_connect demo_attempt ?c demo_dest False (from_secs 60)
      = handshake demo_wire ?c 0 1700000003 7 0 ?s"
    by (simp add: manager_connect_def demo_attempt_def demo_dest_def open_connection_def timeout_params_default_def set_read_def
        from_secs_def nanos_per_sec_def set_read_timeout_def set_write_timeout_def)
  ultimately show ?thesis by auto
qed

lemma demo_run_served:
  "\<exists>s p. net_run demo_kernel (\<lambda>_. True) False s {} {} \<and> sys_threads s = (\<lambda>_. Idle 0)(0 := Serving demo_dest p)
     \<and> sys_connected s = {demo_dest} \<and> state_machine p = AwaitingHeaders \<and> last_progress p = 0
     \<and> sys_node s = demo_node_start"
proof -
  let ?s0 = "system_start () :: (unit, unit block, unit) net_system"
  let ?s1 = "set_thread 0 (Connecting demo_dest) (?s0\<lparr>sys_connected := {demo_dest}, sys_fatal := fatal_new\<rparr>)"
  have "net_step demo_kernel (\<lambda>_. True) False ?s0 {} ?s1"
    by (rule net_step.select [where n = 0 and selected = "Some (Ipv4 [10, 0, 0, 1], 8333)"])
      (simp_all add: system_start_def thread_select_def usable_destination_def demo_dest_def from_socket_addr_def)
  from net_run.step [OF net_run.start this]
  have run1: "net_run demo_kernel (\<lambda>_. True) False ?s1 {} {}"
    by (simp add: set_thread_def system_start_def download_new_def wanted_blocks_def)
  obtain locators where loc: "build_block_locators demo_kernel 5 = Some locators"
    using build_block_locators_ok [of demo_kernel 5, OF demo_kernel_ancestors] by (auto simp: demo_kernel_def)
  let ?p = "\<lparr>peer_addr = Ipv4 [10, 0, 0, 1], state_machine = AwaitingHeaders, last_progress = 0,
      to_writer = [create_getheaders_message locators], writer_open = True\<rparr> :: unit bitcoin_peer"
  let ?s2 = "set_thread 0 (Serving demo_dest ?p) (?s1\<lparr>sys_connected := {demo_dest}\<rparr>)"
  obtain r where "manager_connect demo_attempt (peer_config Bitcoin 3) demo_dest False (from_secs 60) = Some (Inr r)"
    using demo_connects by blast
  then have "peer_new demo_kernel demo_attempt Bitcoin False True demo_dest (sys_node ?s1) = Some (Inr ?p)"
    using loc by (simp add: peer_new_def demo_kernel_def demo_attempt_def demo_dest_def)
  then have "net_step demo_kernel (\<lambda>_. True) False ?s1 {} ?s2"
    by (rule net_step.connected [rotated]) (simp_all add: set_thread_def thread_connected_def)
  from net_run.step [OF run1 this] have "net_run demo_kernel (\<lambda>_. True) False ?s2 {} {}"
    by (simp add: set_thread_def system_start_def download_new_def wanted_blocks_def)
  then show ?thesis
    by (intro exI [of _ ?s2] exI [of _ ?p]) (simp add: set_thread_def system_start_def demo_node_start_def)
qed

lemma demo_headers:
  "\<exists>msgs. process_message demo_kernel AwaitingHeaders (Headers []) src demo_node_start
     = Some (AwaitingBlock {4, 5}, msgs, demo_node_start\<lparr>download :=
         \<lparr>queue = [], in_flight = {4, 5}, buffer = Map.empty\<rparr>\<rparr>)"
proof -
  have "walk_back demo_kernel () 5 [] = Some (Some [5, 4])"
    by (simp add: walk_back.simps [of _ _ 5] walk_back.simps [of _ _ 4] walk_back.simps [of _ _ 3] demo_kernel_def)
  then have "populate_download_queue demo_kernel () download_new = Some (download_new\<lparr>queue := [4, 5]\<rparr>)"
    by (simp add: populate_download_queue_def download_new_def demo_kernel_def buffered_hashes_def)
  then show ?thesis
    by (simp add: process_message_def demo_node_start_def next_batch_def pop_batch_def
        download_new_def download_batch_size_def Let_def insert_commute)
qed

lemma demo_run_asked:
  "\<exists>s p. net_run demo_kernel (\<lambda>_. True) False s {4, 5} {} \<and> sys_threads s = (\<lambda>_. Idle 0)(0 := Serving demo_dest p)
     \<and> sys_connected s = {demo_dest} \<and> state_machine p = AwaitingBlock {4, 5}
     \<and> download (sys_node s) = \<lparr>queue = [], in_flight = {4, 5}, buffer = Map.empty\<rparr>"
proof -
  obtain s p where run: "net_run demo_kernel (\<lambda>_. True) False s {} {}" "sys_threads s = (\<lambda>_. Idle 0)(0 := Serving demo_dest p)"
    "sys_connected s = {demo_dest}" "state_machine p = AwaitingHeaders" "last_progress p = 0"
    "sys_node s = demo_node_start" using demo_run_served by blast
  let ?ns = "demo_node_start\<lparr>download := \<lparr>queue = [], in_flight = {4, 5}, buffer = Map.empty\<rparr>\<rparr>"
  obtain msgs where "process_message demo_kernel AwaitingHeaders (Headers []) (peer_addr p) demo_node_start
      = Some (AwaitingBlock {4, 5}, msgs, ?ns)" using demo_headers by blast
  then have "\<exists>b p'. thread_turn demo_kernel True 1 (Inr (Headers [])) p (sys_node s) = Some (b, p', ?ns)
      \<and> state_machine p' = AwaitingBlock {4, 5}"
    using run(4-6) by (auto simp: thread_turn_def is_stalled_def stalled_def receive_and_process_message_def Let_def
        peer_stall_timeout_def from_secs_def nanos_per_sec_def)
  then obtain b p' where turn: "thread_turn demo_kernel True 1 (Inr (Headers [])) p (sys_node s) = Some (b, p', ?ns)"
    "state_machine p' = AwaitingBlock {4, 5}" by blast
  then have "net_step demo_kernel (\<lambda>_. True) False s {} (set_thread 0 (Serving demo_dest p') (s\<lparr>sys_node := ?ns\<rparr>))"
    using run(2,4) by (intro net_step.turn [OF _ turn(1)]) (simp_all add: delivered_def)
  from net_run.step [OF run(1) this] turn(2) run(2,3) show ?thesis
    by (intro exI [of _ "set_thread 0 (Serving demo_dest p') (s\<lparr>sys_node := ?ns\<rparr>)"] exI [of _ p'])
      (simp add: set_thread_def wanted_blocks_def insert_commute)
qed

lemma demo_run_left:
  "\<exists>s. net_run demo_kernel (\<lambda>_. True) False s {4, 5} {} \<and> sys_connected s = {}"
proof -
  obtain s p where run: "net_run demo_kernel (\<lambda>_. True) False s {4, 5} {}" "sys_threads s = (\<lambda>_. Idle 0)(0 := Serving demo_dest p)"
    "sys_connected s = {demo_dest}" "state_machine p = AwaitingBlock {4, 5}"
    "download (sys_node s) = \<lparr>queue = [], in_flight = {4, 5}, buffer = Map.empty\<rparr>" using demo_run_asked by blast
  let ?d = "release_in_flight [4, 5] p (download (sys_node s))"
  let ?s = "set_thread 0 (Idle 0) (s\<lparr>sys_node := (sys_node s)\<lparr>download := ?d\<rparr>, sys_connected := {}\<rparr>)"
  have "net_step demo_kernel (\<lambda>_. True) False s {} ?s"
    by (rule net_step.leave [where order = "[4, 5]"])
      (simp_all add: run thread_leave_def enumerates_def inventory_of_def)
  moreover have "wanted_blocks ?d = {4, 5}"
    using run(4,5) ledger.give_back_wanted [of "[4, 5]" "download (sys_node s)"]
    by (simp add: release_in_flight_def wanted_blocks_def insert_commute)
  ultimately have "net_run demo_kernel (\<lambda>_. True) False ?s {4, 5} {}"
    using net_run.step [OF run(1)] by (fastforce simp: set_thread_def insert_commute)
  then show ?thesis by (intro exI [of _ ?s]) (simp add: set_thread_def)
qed

theorem no_block_lost_witness:
  "\<exists>s p. net_run demo_kernel (\<lambda>_. True) False s {4, 5} {} \<and> sys_threads s 0 = Serving demo_dest p
     \<and> {4, 5} \<subseteq> set (queue (download (sys_node s)))
         \<union> {h. \<exists>i dest p I. sys_threads s i = Serving dest p \<and> state_machine p = AwaitingBlock I \<and> h \<in> I}"
proof -
  obtain s p where run: "net_run demo_kernel (\<lambda>_. True) False s {4, 5} {}" "sys_threads s = (\<lambda>_. Idle 0)(0 := Serving demo_dest p)"
    using demo_run_asked by blast
  then have "sys_threads s 0 = Serving demo_dest p" by simp
  with run(1) no_block_lost [OF demo_kernel_ok run(1)] show ?thesis by auto
qed

theorem disconnected_requeues_all_witness:
  "\<exists>s. net_run demo_kernel (\<lambda>_. True) False s {4, 5} {} \<and> in_flight (download (sys_node s)) = {}
     \<and> {4, 5} \<subseteq> set (queue (download (sys_node s)))"
proof -
  obtain s where run: "net_run demo_kernel (\<lambda>_. True) False s {4, 5} {}" "sys_connected s = {}"
    using demo_run_left by blast
  with disconnected_requeues_all [OF demo_kernel_ok run] show ?thesis by auto
qed

theorem destinations_unique_witness:
  "\<exists>s p. net_run demo_kernel (\<lambda>_. True) False s {4, 5} {} \<and> sys_threads s 0 = Serving demo_dest p
     \<and> state_machine p \<noteq> AwaitingBlock {} \<and> demo_dest \<in> sys_connected s"
proof -
  obtain s p where run: "net_run demo_kernel (\<lambda>_. True) False s {4, 5} {}" "sys_threads s = (\<lambda>_. Idle 0)(0 := Serving demo_dest p)"
    using demo_run_asked by blast
  then have th: "sys_threads s 0 = Serving demo_dest p" by simp
  then have "thread_destination (sys_threads s 0) = Some demo_dest" by simp
  with run(1) th destinations_unique [OF demo_kernel_ok run(1)] show ?thesis by blast
qed

end
