(* ===== verification/Wallet.thy ===== *)
theory Wallet
  imports Prelude "HOL-Library.Multiset"
begin

text \<open>
  The silent payments wallet (wallet/src/silentpayments/wallet.rs) and its block scanner
  (scanning.rs): coins, key import, scanning and disconnecting blocks, balance and history.
  The \<open>silentpayments\<close> and \<open>secp256k1\<close> functions are the fields of the argument
  \<open>sp\<close>; a kernel block is the list of its transactions.  Keys, scalars and x-only keys
  are the 256-bit numbers the crates wrap.  \<open>None\<close> is a panic.
\<close>

type_synonym txid = "256 word"
type_synonym scalar = "256 word"
type_synonym secret_key = "256 word"
type_synonym xonly = "256 word"

text \<open>Both crates write such a number as 32 bytes, identifiers in little-endian order and keys in big-endian.\<close>

interpretation u256_le: byte_codec "to_le_bytes :: 256 word \<Rightarrow> u8 list" from_le_bytes 32
  by unfold_locales (simp_all add: length_to_le_bytes from_to_le_bytes)

interpretation u256_be: byte_codec "to_be_bytes :: 256 word \<Rightarrow> u8 list" from_be_bytes 32
  by unfold_locales (simp_all add: to_be_bytes_def from_be_bytes_def length_to_le_bytes from_to_le_bytes)

lemmas u256_codec_facts [simp, codec_simps] =
  u256_le.enc_length u256_le.dec_enc u256_be.enc_length u256_be.dec_enc

datatype wallet_network = Mainnet | Testnet | Regtest

record outpoint =
  op_txid :: txid
  op_vout :: u32

record spent_by =
  sb_txid :: txid
  sb_height :: u32

record coin =
  coin_value :: u64
  coin_script :: "u8 list"
  coin_tweak :: scalar
  coin_label :: "scalar option"
  coin_height :: u32
  coin_spent_by :: "spent_by option"

datatype history_entry =
    Received outpoint u64 u32
  | Spent outpoint u64 u32

record 'r silent_payment_keys =
  keys_receiver :: 'r
  keys_scan_key :: secret_key

record ('r, 'pk) wallet =
  scan_height :: u32
  keys :: "'r silent_payment_keys option"
  spend_key :: "'pk option"
  spend_secret :: "secret_key option"
  wallet_net :: wallet_network
  utxos :: "outpoint \<rightharpoonup> coin"
  reserved :: "outpoint set"

section \<open>Blocks as the scanner sees them\<close>

record kernel_input =
  in_outpoint :: outpoint
  in_script_sig :: "u8 list option"
  in_witness :: "u8 list list"

record kernel_output =
  out_value :: u64
  out_script :: "u8 list"

record kernel_tx =
  ktx_txid :: txid
  ktx_inputs :: "kernel_input list"
  ktx_outputs :: "kernel_output list"

record input_data =
  id_script_sig :: "u8 list"
  id_witness :: "u8 list list"
  id_prevout_script :: "u8 list"
  id_outpoint :: "u8 list"

text \<open>
  \<open>sp_scan\<close> is \<open>Receiver::scan_transaction\<close>: the labels and the keys found under each,
  in the order the maps are iterated.  A label is its scalar.
\<close>

record ('r, 'pk, 'td) silent_payments =
  sp_public_key :: "secret_key \<Rightarrow> 'pk"
  sp_x_only :: "'pk \<Rightarrow> xonly \<times> bool"
  sp_even_key :: "xonly \<Rightarrow> 'pk"
  sp_negate :: "secret_key \<Rightarrow> secret_key"
  sp_label :: "secret_key \<Rightarrow> u32 \<Rightarrow> scalar"
  sp_receiver :: "'pk \<Rightarrow> 'pk \<Rightarrow> scalar \<Rightarrow> wallet_network \<Rightarrow> string + 'r"
  sp_receiving_code :: "'r \<Rightarrow> string"
  sp_pubkey_from_input :: "u8 list \<Rightarrow> u8 list list \<Rightarrow> u8 list \<Rightarrow> string + 'pk option"
  sp_tweak_data :: "'pk list \<Rightarrow> u8 list list \<Rightarrow> string + 'td"
  sp_shared_secret :: "'td \<Rightarrow> secret_key \<Rightarrow> 'pk"
  sp_scan :: "'r \<Rightarrow> 'pk \<Rightarrow> xonly list \<Rightarrow> string + (scalar option \<times> (xonly \<times> scalar) list) list"
  sp_is_p2tr :: "u8 list \<Rightarrow> bool"
  sp_parse_xonly :: "u8 list \<Rightarrow> xonly option"

section \<open>Keys and reservations\<close>

definition build_receiver ::
    "('r, 'pk, 'td) silent_payments \<Rightarrow> secret_key \<Rightarrow> 'pk \<Rightarrow> wallet_network \<Rightarrow> string + 'r" where
  "build_receiver sp b_scan b_spend_pub net =
     sp_receiver sp (sp_public_key sp b_scan) b_spend_pub (sp_label sp b_scan 0) net"

definition from_parts :: "u32 \<Rightarrow> wallet_network \<Rightarrow> (outpoint \<rightharpoonup> coin) \<Rightarrow> ('r, 'pk) wallet" where
  "from_parts height net us =
     \<lparr>scan_height = height, keys = None, spend_key = None, spend_secret = None, wallet_net = net,
      utxos = us, reserved = {}\<rparr>"

definition wallet_new :: "wallet_network \<Rightarrow> ('r, 'pk) wallet" where
  "wallet_new net =
     \<lparr>scan_height = 0, keys = None, spend_key = None, spend_secret = None, wallet_net = net,
      utxos = Map.empty, reserved = {}\<rparr>"

definition reserve_coins :: "outpoint list \<Rightarrow> ('r, 'pk) wallet \<Rightarrow> ('r, 'pk) wallet" where
  "reserve_coins ops w = w\<lparr>reserved := reserved w \<union> set ops\<rparr>"

fun release_coins :: "outpoint list \<Rightarrow> ('r, 'pk) wallet \<Rightarrow> ('r, 'pk) wallet" where
  "release_coins [] w = w"
| "release_coins (x # xs) w = release_coins xs (w\<lparr>reserved := reserved w - {x}\<rparr>)"

definition import_keys ::
    "('r, 'pk, 'td) silent_payments \<Rightarrow> secret_key \<Rightarrow> xonly \<Rightarrow> ('r, 'pk) wallet \<Rightarrow> string + ('r, 'pk) wallet" where
  "import_keys sp scan_key spend_xonly w =
     (let spend_pub = sp_even_key sp spend_xonly in
      rbind (build_receiver sp scan_key spend_pub (wallet_net w)) (\<lambda>receiver.
        Inr (w\<lparr>spend_key := Some spend_pub,
               keys := Some \<lparr>keys_receiver = receiver, keys_scan_key = scan_key\<rparr>\<rparr>)))"

definition import_signing_keys ::
    "('r, 'pk, 'td) silent_payments \<Rightarrow> secret_key \<Rightarrow> secret_key \<Rightarrow> ('r, 'pk) wallet \<Rightarrow> string + ('r, 'pk) wallet" where
  "import_signing_keys sp scan_key secret w =
     (let (spend_xonly, odd) = sp_x_only sp (sp_public_key sp secret);
          normalized = (if odd then sp_negate sp secret else secret) in
      rbind (import_keys sp scan_key spend_xonly w) (\<lambda>w. Inr (w\<lparr>spend_secret := Some normalized\<rparr>)))"

section \<open>Scanning\<close>

definition parse_p2tr :: "('r, 'pk, 'td) silent_payments \<Rightarrow> u8 list \<Rightarrow> xonly option" where
  "parse_p2tr sp script = (if sp_is_p2tr sp script then sp_parse_xonly sp (drop 2 script) else None)"

fun input_keys ::
    "('r, 'pk, 'td) silent_payments \<Rightarrow> input_data list \<Rightarrow> ('pk \<times> u8 list) list" where
  "input_keys sp [] = []"
| "input_keys sp (i # is) =
     (case sp_pubkey_from_input sp (id_script_sig i) (id_witness i) (id_prevout_script i) of
        Inr (Some pk) \<Rightarrow> (pk, id_outpoint i) # input_keys sp is
      | _ \<Rightarrow> input_keys sp is)"

fun match_outputs :: "(nat \<times> xonly) list \<Rightarrow> scalar option \<Rightarrow> (xonly \<times> scalar) list \<Rightarrow> (nat \<times> scalar \<times> scalar option) list" where
  "match_outputs outs label [] = []"
| "match_outputs outs label ((pk, tweak) # ks) =
     (case find (\<lambda>(_, x). x = pk) outs of
        Some (idx, _) \<Rightarrow> (idx, tweak, label) # match_outputs outs label ks
      | None \<Rightarrow> match_outputs outs label ks)"

definition scan_transaction ::
    "('r, 'pk, 'td) silent_payments \<Rightarrow> 'r \<Rightarrow> secret_key \<Rightarrow> input_data list \<Rightarrow> (nat \<times> xonly) list
       \<Rightarrow> (nat \<times> scalar \<times> scalar option) list" where
  "scan_transaction sp receiver b_scan inputs taproot_outputs =
     (let pks = input_keys sp inputs in
      if pks = [] then []
      else case sp_tweak_data sp (map fst pks) (map snd pks) of
             Inl _ \<Rightarrow> []
           | Inr tweak_data \<Rightarrow>
               (case sp_scan sp receiver (sp_shared_secret sp tweak_data b_scan) (map snd taproot_outputs) of
                  Inl _ \<Rightarrow> []
                | Inr found \<Rightarrow> concat (map (\<lambda>(label, ks). match_outputs taproot_outputs label ks) found)))"

definition outpoint_bytes :: "outpoint \<Rightarrow> u8 list" where
  "outpoint_bytes op = to_le_bytes (op_txid op) @ to_le_bytes (op_vout op)"

fun read_inputs :: "nat \<Rightarrow> kernel_input list \<Rightarrow> u8 list list \<Rightarrow> input_data list option" where
  "read_inputs idx [] spent = Some []"
| "read_inputs idx (inp # inps) spent =
     (if idx < length spent then
        (case in_script_sig inp of
           None \<Rightarrow> None
         | Some script_sig \<Rightarrow>
             map_option (\<lambda>ds. \<lparr>id_script_sig = script_sig, id_witness = in_witness inp,
                 id_prevout_script = spent ! idx, id_outpoint = outpoint_bytes (in_outpoint inp)\<rparr> # ds)
               (read_inputs (Suc idx) inps spent))
      else None)"

fun taproot_outputs_of ::
    "('r, 'pk, 'td) silent_payments \<Rightarrow> nat \<Rightarrow> kernel_output list \<Rightarrow> (nat \<times> xonly) list" where
  "taproot_outputs_of sp i [] = []"
| "taproot_outputs_of sp i (out # outs) =
     (case parse_p2tr sp (out_script out) of
        Some pk \<Rightarrow> (i, pk) # taproot_outputs_of sp (Suc i) outs
      | None \<Rightarrow> taproot_outputs_of sp (Suc i) outs)"

fun found_coins ::
    "kernel_tx \<Rightarrow> u32 \<Rightarrow> (nat \<times> scalar \<times> scalar option) list \<Rightarrow> (outpoint \<times> coin) list option" where
  "found_coins tx height [] = Some []"
| "found_coins tx height ((idx, tweak, label) # ms) =
     (if idx < length (ktx_outputs tx) then
        map_option (\<lambda>cs. (\<lparr>op_txid = ktx_txid tx, op_vout = word_of_nat idx\<rparr>,
            \<lparr>coin_value = out_value (ktx_outputs tx ! idx), coin_script = out_script (ktx_outputs tx ! idx),
             coin_tweak = tweak, coin_label = label, coin_height = height, coin_spent_by = None\<rparr>) # cs)
          (found_coins tx height ms)
      else None)"

definition scan_tx ::
    "('r, 'pk, 'td) silent_payments \<Rightarrow> 'r \<Rightarrow> secret_key \<Rightarrow> u32 \<Rightarrow> kernel_tx \<Rightarrow> u8 list list
       \<Rightarrow> (outpoint \<times> coin) list option" where
  "scan_tx sp receiver b_scan height tx spent =
     (let outs = taproot_outputs_of sp 0 (ktx_outputs tx) in
      if outs = [] then Some []
      else case read_inputs 0 (ktx_inputs tx) spent of
             None \<Rightarrow> None
           | Some inputs \<Rightarrow> found_coins tx height (scan_transaction sp receiver b_scan inputs outs))"

fun scan_txs ::
    "('r, 'pk, 'td) silent_payments \<Rightarrow> 'r \<Rightarrow> secret_key \<Rightarrow> u32 \<Rightarrow> (kernel_tx \<times> u8 list list) list
       \<Rightarrow> (outpoint \<times> coin) list option" where
  "scan_txs sp receiver b_scan height [] = Some []"
| "scan_txs sp receiver b_scan height ((tx, spent) # rest) =
     (case scan_tx sp receiver b_scan height tx spent of
        None \<Rightarrow> None
      | Some found \<Rightarrow> map_option (\<lambda>fs. found @ fs) (scan_txs sp receiver b_scan height rest))"

definition scan_block_inner ::
    "('r, 'pk, 'td) silent_payments \<Rightarrow> 'r \<Rightarrow> secret_key \<Rightarrow> kernel_tx list \<Rightarrow> u8 list list list \<Rightarrow> u32
       \<Rightarrow> (outpoint \<times> coin) list option" where
  "scan_block_inner sp receiver b_scan block spent_outputs height =
     scan_txs sp receiver b_scan height (zip (drop 1 block) spent_outputs)"

section \<open>The wallet and the chain\<close>

fun insert_coins :: "(outpoint \<times> coin) list \<Rightarrow> (outpoint \<rightharpoonup> coin) \<Rightarrow> (outpoint \<rightharpoonup> coin)" where
  "insert_coins [] us = us"
| "insert_coins ((op, c) # cs) us = insert_coins cs (us(op \<mapsto> c))"

fun mark_inputs :: "spent_by \<Rightarrow> kernel_input list \<Rightarrow> (outpoint \<rightharpoonup> coin) \<Rightarrow> (outpoint \<rightharpoonup> coin)" where
  "mark_inputs sb [] us = us"
| "mark_inputs sb (inp # inps) us =
     mark_inputs sb inps
       (case us (in_outpoint inp) of
          Some c \<Rightarrow> us(in_outpoint inp \<mapsto> c\<lparr>coin_spent_by := Some sb\<rparr>)
        | None \<Rightarrow> us)"

fun mark_spends :: "u32 \<Rightarrow> kernel_tx list \<Rightarrow> (outpoint \<rightharpoonup> coin) \<Rightarrow> (outpoint \<rightharpoonup> coin)" where
  "mark_spends height [] us = us"
| "mark_spends height (tx # txs) us =
     mark_spends height txs (mark_inputs \<lparr>sb_txid = ktx_txid tx, sb_height = height\<rparr> (ktx_inputs tx) us)"

definition scan_block ::
    "('r, 'pk, 'td) silent_payments \<Rightarrow> kernel_tx list \<Rightarrow> u8 list list list \<Rightarrow> u32 \<Rightarrow> ('r, 'pk) wallet
       \<Rightarrow> (nat \<times> ('r, 'pk) wallet) option" where
  "scan_block sp block spent_outputs height w =
     (case keys w of
        None \<Rightarrow> Some (0, w)
      | Some k \<Rightarrow>
          map_option (\<lambda>found.
              (length found,
               w\<lparr>utxos := mark_spends height block (insert_coins found (utxos w)), scan_height := height\<rparr>))
            (scan_block_inner sp (keys_receiver k) (keys_scan_key k) block spent_outputs height))"

definition unspend :: "txid set \<Rightarrow> coin \<Rightarrow> coin" where
  "unspend txids c =
     (case coin_spent_by c of
        Some s \<Rightarrow> (if sb_txid s \<in> txids then c\<lparr>coin_spent_by := None\<rparr> else c)
      | None \<Rightarrow> c)"

definition forget_block :: "kernel_tx list \<Rightarrow> (outpoint \<rightharpoonup> coin) \<Rightarrow> (outpoint \<rightharpoonup> coin)" where
  "forget_block block us =
     (let txids = set (map ktx_txid block) in
      (\<lambda>op. if op_txid op \<in> txids then None else map_option (unspend txids) (us op)))"

definition process_disconnect :: "kernel_tx list \<Rightarrow> ('r, 'pk) wallet \<Rightarrow> ('r, 'pk) wallet" where
  "process_disconnect block w = w\<lparr>utxos := forget_block block (utxos w)\<rparr>"

section \<open>Queries\<close>

definition is_unspent :: "coin \<Rightarrow> bool" where
  "is_unspent c \<longleftrightarrow> coin_spent_by c = None"

text \<open>\<open>order\<close> is the order in which the hash map is iterated.\<close>

definition utxo_count :: "outpoint list \<Rightarrow> ('r, 'pk) wallet \<Rightarrow> nat" where
  "utxo_count order w = length (filter (\<lambda>op. is_unspent (the (utxos w op))) order)"

definition receive_address :: "('r, 'pk, 'td) silent_payments \<Rightarrow> ('r, 'pk) wallet \<Rightarrow> string option" where
  "receive_address sp w = map_option (\<lambda>k. sp_receiving_code sp (keys_receiver k)) (keys w)"

definition checked_add :: "u64 \<Rightarrow> u64 \<Rightarrow> u64 option" where
  "checked_add a b = (if unat a + unat b < 2 ^ 64 then Some (a + b) else None)"

fun sum_amounts :: "u64 \<Rightarrow> u64 list \<Rightarrow> u64 option" where
  "sum_amounts acc [] = Some acc"
| "sum_amounts acc (v # vs) = (case checked_add acc v of None \<Rightarrow> None | Some a \<Rightarrow> sum_amounts a vs)"

definition balance :: "outpoint list \<Rightarrow> ('r, 'pk) wallet \<Rightarrow> u64 option" where
  "balance order w = sum_amounts 0 (map coin_value (filter is_unspent (map (\<lambda>op. the (utxos w op)) order)))"

definition coin_entries :: "outpoint \<Rightarrow> coin \<Rightarrow> history_entry list" where
  "coin_entries op c =
     Received op (coin_value c) (coin_height c)
       # (case coin_spent_by c of Some s \<Rightarrow> [Spent op (coin_value c) (sb_height s)] | None \<Rightarrow> [])"

fun entry_at :: "history_entry \<Rightarrow> u32" where
  "entry_at (Received _ _ height) = height"
| "entry_at (Spent _ _ spent_at) = spent_at"

definition history :: "outpoint list \<Rightarrow> ('r, 'pk) wallet \<Rightarrow> history_entry list" where
  "history order w = sort_key entry_at (concat (map (\<lambda>op. coin_entries op (the (utxos w op))) order))"

section \<open>What scanning finds\<close>

text \<open>
  \<open>pays\<close>: the receiver, scanning the transaction with these inputs and x-only output keys,
  reports the key \<open>pk\<close> as its own, with a tweak and a label.
\<close>

definition pays ::
    "('r, 'pk, 'td) silent_payments \<Rightarrow> 'r \<Rightarrow> secret_key \<Rightarrow> input_data list \<Rightarrow> xonly list \<Rightarrow> xonly \<Rightarrow> scalar
       \<Rightarrow> scalar option \<Rightarrow> bool" where
  "pays sp receiver b_scan inputs xs pk tweak label \<longleftrightarrow>
     input_keys sp inputs \<noteq> [] \<and>
     (\<exists>td found ks.
        sp_tweak_data sp (map fst (input_keys sp inputs)) (map snd (input_keys sp inputs)) = Inr td
        \<and> sp_scan sp receiver (sp_shared_secret sp td b_scan) xs = Inr found
        \<and> (label, ks) \<in> set found \<and> (pk, tweak) \<in> set ks)"

text \<open>\<open>first_output\<close>: output \<open>i\<close> is the first taproot output with key \<open>pk\<close>.\<close>

definition first_output :: "('r, 'pk, 'td) silent_payments \<Rightarrow> kernel_output list \<Rightarrow> nat \<Rightarrow> xonly \<Rightarrow> bool" where
  "first_output sp outs i pk \<longleftrightarrow>
     i < length outs \<and> parse_p2tr sp (out_script (outs ! i)) = Some pk
     \<and> (\<forall>j<i. parse_p2tr sp (out_script (outs ! j)) \<noteq> Some pk)"

lemma match_outputs_set:
  "set (match_outputs outs label ks)
     = {(i, tweak, label) | i tweak pk. (pk, tweak) \<in> set ks \<and> find (\<lambda>(_, x). x = pk) outs = Some (i, pk)}"
proof (induction ks)
  case (Cons k ks)
  obtain pk tweak where k: "k = (pk, tweak)" by fastforce
  have key: "find (\<lambda>(_, x). x = pk) outs = Some (i, x) \<Longrightarrow> x = pk" for i x
    by (auto simp: find_Some_iff split_beta) (metis snd_conv)
  show ?case
  proof (cases "find (\<lambda>(_, x). x = pk) outs")
    case None
    then show ?thesis using Cons k by auto
  next
    case (Some ix)
    then obtain i where "find (\<lambda>(_, x). x = pk) outs = Some (i, pk)" using key by (cases ix) auto
    then show ?thesis using Cons k by auto
  qed
qed simp

lemma find_taproot_output:
  "find (\<lambda>(_, x). x = pk) (taproot_outputs_of sp k outs) = Some (n, pk)
     \<longleftrightarrow> (\<exists>i. n = k + i \<and> first_output sp outs i pk)"
proof (induction outs arbitrary: k)
  case Nil
  then show ?case by (simp add: first_output_def)
next
  case (Cons out outs)
  have step: "first_output sp (out # outs) i pk \<longleftrightarrow>
      (if parse_p2tr sp (out_script out) = Some pk then i = 0
       else \<exists>j. i = Suc j \<and> first_output sp outs j pk)" for i
    by (cases i) (auto simp: first_output_def nth_Cons less_Suc_eq_0_disj split: nat.splits)
  show ?case
    by (cases "parse_p2tr sp (out_script out)") (auto simp: step Cons)
qed

lemma scan_transaction_set:
  "(n, tweak, label) \<in> set (scan_transaction sp receiver b_scan inputs (taproot_outputs_of sp 0 outs)) \<longleftrightarrow>
     (\<exists>pk. pays sp receiver b_scan inputs (map snd (taproot_outputs_of sp 0 outs)) pk tweak label
        \<and> first_output sp outs n pk)"
proof -
  let ?ik = "input_keys sp inputs"
  let ?td = "sp_tweak_data sp (map fst ?ik) (map snd ?ik)"
  let ?outs = "taproot_outputs_of sp 0 outs"
  consider "?ik = [] \<or> (\<exists>e. ?td = Inl e) \<or> (\<exists>td e. ?td = Inr td \<and> sp_scan sp receiver (sp_shared_secret sp td b_scan) (map snd ?outs) = Inl e)"
    | td found where "?ik \<noteq> []" "?td = Inr td" "sp_scan sp receiver (sp_shared_secret sp td b_scan) (map snd ?outs) = Inr found"
    by (metis sum.exhaust)
  then show ?thesis
  proof cases
    case 1
    then show ?thesis by (auto simp: scan_transaction_def pays_def Let_def split: if_splits)
  next
    case 2
    have "(n, tweak, label) \<in> set (scan_transaction sp receiver b_scan inputs ?outs) \<longleftrightarrow>
        (\<exists>ks pk. (label, ks) \<in> set found \<and> (pk, tweak) \<in> set ks \<and> first_output sp outs n pk)"
      using 2 by (force simp: scan_transaction_def Let_def match_outputs_set find_taproot_output)
    then show ?thesis using 2 by (auto simp: pays_def)
  qed
qed

lemma first_output_bound: "first_output sp outs n pk \<Longrightarrow> n < length outs"
  by (simp add: first_output_def)

definition coin_of :: "kernel_tx \<Rightarrow> u32 \<Rightarrow> nat \<Rightarrow> scalar \<Rightarrow> scalar option \<Rightarrow> outpoint \<times> coin" where
  "coin_of tx height i tweak label =
     (\<lparr>op_txid = ktx_txid tx, op_vout = word_of_nat i\<rparr>,
      \<lparr>coin_value = out_value (ktx_outputs tx ! i), coin_script = out_script (ktx_outputs tx ! i),
       coin_tweak = tweak, coin_label = label, coin_height = height, coin_spent_by = None\<rparr>)"

lemma found_coins_map:
  assumes "\<forall>(i, tweak, label) \<in> set ms. i < length (ktx_outputs tx)"
  shows "found_coins tx height ms = Some (map (\<lambda>(i, tweak, label). coin_of tx height i tweak label) ms)"
  using assms by (induction ms) (auto simp: coin_of_def)

lemma image_triples:
  assumes "\<And>i t l. (i, t, l) \<in> A \<longleftrightarrow> (\<exists>pk. P i t l pk)"
  shows "(\<lambda>(i, t, l). g i t l) ` A = {g i t l | i t l pk. P i t l pk}"
  using assms by (force simp: image_iff)

lemma scan_tx_found:
  assumes "read_inputs 0 (ktx_inputs tx) spent = Some inputs"
  shows "\<exists>found. scan_tx sp receiver b_scan height tx spent = Some found
     \<and> set found = {coin_of tx height i tweak label | i tweak label pk.
          pays sp receiver b_scan inputs (map snd (taproot_outputs_of sp 0 (ktx_outputs tx))) pk tweak label
          \<and> first_output sp (ktx_outputs tx) i pk}"
proof -
  let ?outs = "taproot_outputs_of sp 0 (ktx_outputs tx)"
  let ?ms = "scan_transaction sp receiver b_scan inputs ?outs"
  define P where "P i tweak label pk \<longleftrightarrow> pays sp receiver b_scan inputs (map snd ?outs) pk tweak label
      \<and> first_output sp (ktx_outputs tx) i pk" for i tweak label pk
  have ms: "(i, tweak, label) \<in> set ?ms \<longleftrightarrow> (\<exists>pk. P i tweak label pk)" for i tweak label
    unfolding P_def by (rule scan_transaction_set)
  have "\<forall>(i, tweak, label) \<in> set ?ms. i < length (ktx_outputs tx)"
    using ms first_output_bound by (auto simp: P_def)
  note coins = found_coins_map [OF this, of height]
  have "scan_tx sp receiver b_scan height tx spent = Some (map (\<lambda>(i, tweak, label). coin_of tx height i tweak label) ?ms)"
  proof (cases "?outs = []")
    case True
    have "\<not> P i tweak label pk" for i tweak label pk
      using find_taproot_output [of pk sp 0 "ktx_outputs tx" i] True by (simp add: P_def)
    then have none: "x \<notin> set ?ms" for x using ms by (cases x) simp
    have "set ?ms = {}" by (rule equals0I) (rule notE [OF none])
    then have "?ms = []" by simp
    then show ?thesis using True by (simp add: scan_tx_def)
  next
    case False
    then show ?thesis using assms coins by (simp add: scan_tx_def)
  qed
  moreover have "(\<lambda>(i, tweak, label). coin_of tx height i tweak label) ` set ?ms
      = {coin_of tx height i tweak label | i tweak label pk. P i tweak label pk}"
    using ms by (rule image_triples)
  ultimately show ?thesis unfolding P_def by simp
qed

text \<open>The conditions under which the scanner does not panic: undo data for every input.\<close>

definition undo_matches :: "kernel_tx \<Rightarrow> u8 list list \<Rightarrow> bool" where
  "undo_matches tx spent \<longleftrightarrow>
     length (ktx_inputs tx) \<le> length spent \<and> (\<forall>i \<in> set (ktx_inputs tx). in_script_sig i \<noteq> None)"

lemma read_inputs_total:
  assumes "idx + length inps \<le> length spent" "\<forall>i \<in> set inps. in_script_sig i \<noteq> None"
  shows "\<exists>ds. read_inputs idx inps spent = Some ds"
  using assms by (induction inps arbitrary: idx) fastforce+

definition found_in ::
    "('r, 'pk, 'td) silent_payments \<Rightarrow> 'r \<Rightarrow> secret_key \<Rightarrow> u32 \<Rightarrow> kernel_tx \<Rightarrow> u8 list list \<Rightarrow> (outpoint \<times> coin) set" where
  "found_in sp receiver b_scan height tx spent =
     {coin_of tx height i tweak label | i tweak label pk inputs.
        read_inputs 0 (ktx_inputs tx) spent = Some inputs
        \<and> pays sp receiver b_scan inputs (map snd (taproot_outputs_of sp 0 (ktx_outputs tx))) pk tweak label
        \<and> first_output sp (ktx_outputs tx) i pk}"

lemma scan_txs_found:
  assumes "\<forall>(tx, spent) \<in> set ps. undo_matches tx spent"
  shows "\<exists>found. scan_txs sp receiver b_scan height ps = Some found
     \<and> set found = (\<Union>(tx, spent) \<in> set ps. found_in sp receiver b_scan height tx spent)"
  using assms
proof (induction ps)
  case (Cons p ps)
  obtain tx spent where p: "p = (tx, spent)" by fastforce
  obtain inputs where inputs: "read_inputs 0 (ktx_inputs tx) spent = Some inputs"
    using Cons.prems p read_inputs_total [of 0 "ktx_inputs tx" spent] by (auto simp: undo_matches_def)
  obtain found where "scan_tx sp receiver b_scan height tx spent = Some found"
    "set found = found_in sp receiver b_scan height tx spent"
    using scan_tx_found [OF inputs, of sp receiver b_scan height] inputs by (auto simp: found_in_def)
  then show ?case using Cons p by auto
qed simp

section \<open>Blocks connected and disconnected\<close>

lemma insert_coins_map: "insert_coins found us = us ++ map_of (rev found)"
proof (induction found arbitrary: us)
  case (Cons p ps)
  then show ?case by (cases p) (simp add: map_add_upd_left map_add_def fun_eq_iff split: option.split)
qed simp

lemma mark_inputs_eq:
  "mark_inputs sb inps us op =
     (if op \<in> in_outpoint ` set inps then map_option (coin_spent_by_update (\<lambda>_. Some sb)) (us op) else us op)"
  by (induction inps arbitrary: us) (auto simp: option.map_comp comp_def split: option.splits)

text \<open>The transaction of a block that spends an outpoint: the last one with it as an input.\<close>

definition spender :: "kernel_tx list \<Rightarrow> outpoint \<Rightarrow> kernel_tx option" where
  "spender txs op = find (\<lambda>tx. op \<in> in_outpoint ` set (ktx_inputs tx)) (rev txs)"

lemma mark_spends_append: "mark_spends h (xs @ ys) us = mark_spends h ys (mark_spends h xs us)"
  by (induction xs arbitrary: us) simp_all

lemma mark_spends_eq:
  "mark_spends h txs us op =
     (case spender txs op of
        Some tx \<Rightarrow> map_option (coin_spent_by_update (\<lambda>_. Some \<lparr>sb_txid = ktx_txid tx, sb_height = h\<rparr>)) (us op)
      | None \<Rightarrow> us op)"
proof (induction txs rule: rev_induct)
  case (snoc tx txs)
  show ?case
    by (cases "us op") (auto simp: snoc mark_spends_append mark_inputs_eq spender_def split: option.split)
qed (simp add: spender_def)

lemma spender_in: "spender txs op = Some tx \<Longrightarrow> tx \<in> set txs"
  by (auto simp: spender_def find_Some_iff in_set_conv_nth rev_nth) (metis length_rev nth_mem rev_nth set_rev in_set_conv_nth)

lemma spender_input: "spender txs op = Some tx \<Longrightarrow> \<exists>inp \<in> set (ktx_inputs tx). in_outpoint inp = op"
  by (auto simp: spender_def find_Some_iff)

lemma found_coins_txid: "found_coins tx height ms = Some cs \<Longrightarrow> p \<in> set cs \<Longrightarrow> op_txid (fst p) = ktx_txid tx"
  by (induction ms arbitrary: cs) (auto split: if_splits)

lemma scan_txs_txid:
  "scan_txs sp receiver b_scan height ps = Some found \<Longrightarrow> p \<in> set found
     \<Longrightarrow> op_txid (fst p) \<in> ktx_txid ` fst ` set ps"
proof (induction ps arbitrary: found)
  case (Cons q ps)
  obtain tx spent where q: "q = (tx, spent)" by fastforce
  with Cons.prems(1) obtain f1 f2 where found: "scan_tx sp receiver b_scan height tx spent = Some f1"
    "scan_txs sp receiver b_scan height ps = Some f2" "found = f1 @ f2"
    by (auto split: option.splits)
  then have "\<exists>ms. found_coins tx height ms = Some f1"
    by (auto simp: scan_tx_def Let_def intro: exI [of _ "[]"] split: option.splits if_splits)
  then have "p \<in> set f1 \<Longrightarrow> op_txid (fst p) = ktx_txid tx" using found_coins_txid by blast
  then show ?case using Cons.IH [OF found(2)] Cons.prems(2) found(3) q by auto
qed simp

lemma scan_block_inner_txids:
  assumes "scan_block_inner sp receiver b_scan block spents height = Some found" "(op, c) \<in> set found"
  shows "op_txid op \<in> ktx_txid ` set block"
proof -
  have "op_txid op \<in> ktx_txid ` fst ` set (zip (drop 1 block) spents)"
    using scan_txs_txid [OF _ assms(2)] assms(1) by (fastforce simp: scan_block_inner_def)
  moreover have "fst ` set (zip (drop 1 block) spents) \<subseteq> set block"
    by (auto dest!: set_zip_leftD intro: in_set_dropD)
  ultimately show ?thesis by blast
qed

lemma scan_block_inner_eq:
  assumes "scan_block_inner sp receiver b_scan block spents height = Some found"
  shows "op_txid op \<notin> ktx_txid ` set block \<Longrightarrow> insert_coins found us op = us op"
  by (auto simp: insert_coins_map map_add_def split: option.split
      dest!: map_of_SomeD dest: scan_block_inner_txids [OF assms])

section \<open>Balance and history\<close>

lemma sum_amounts_eq:
  "sum_amounts acc vs =
     (if unat acc + sum_list (map unat vs) < 2 ^ 64 then Some (acc + sum_list vs) else None)"
proof (induction vs arbitrary: acc)
  case Nil
  then show ?case using unsigned_less [of acc] by simp
next
  case (Cons v vs)
  have "unat acc + unat v < 2 ^ 64 \<Longrightarrow> unat (acc + v) = unat acc + unat v"
    by (simp add: unat_word_ariths)
  then show ?case by (auto simp: checked_add_def Cons add.assoc)
qed

lemma unat_sum_list: "sum_list (map unat vs) < 2 ^ 64 \<Longrightarrow> unat (sum_list (vs :: u64 list)) = sum_list (map unat vs)"
  by (induction vs) (simp_all add: unat_word_ariths)

text \<open>The coins of a wallet, and their total value.\<close>

definition total_value :: "(coin \<Rightarrow> bool) \<Rightarrow> ('r, 'pk) wallet \<Rightarrow> nat" where
  "total_value P w = (\<Sum>op \<in> {op \<in> dom (utxos w). P (the (utxos w op))}. unat (coin_value (the (utxos w op))))"

lemma sum_list_filter_coins:
  assumes "enumerates order (dom (utxos w))"
  shows "sum_list (map unat (map coin_value (filter P (map (\<lambda>op. the (utxos w op)) order)))) = total_value P w"
proof -
  have "enumerates (filter (\<lambda>op. P (the (utxos w op))) order) {op \<in> dom (utxos w). P (the (utxos w op))}"
    using assms by (auto simp: enumerates_def)
  from enumerates_sum [OF this] show ?thesis
    by (simp add: total_value_def filter_map comp_def)
qed

fun received_sats :: "history_entry \<Rightarrow> nat" where
  "received_sats (Received _ v _) = unat v"
| "received_sats (Spent _ _ _) = 0"

fun spent_sats :: "history_entry \<Rightarrow> nat" where
  "spent_sats (Received _ _ _) = 0"
| "spent_sats (Spent _ v _) = unat v"

lemma sum_list_mset_eq: "mset xs = mset ys \<Longrightarrow> sum_list (map (f :: _ \<Rightarrow> nat) xs) = sum_list (map f ys)"
  by (metis mset_map sum_mset_sum_list)

lemma sum_list_concat: "sum_list (map (f :: _ \<Rightarrow> nat) (concat xss)) = sum_list (map (\<lambda>xs. sum_list (map f xs)) xss)"
  by (induction xss) simp_all

lemma coin_entries_sums:
  "sum_list (map received_sats (coin_entries op c)) = unat (coin_value c)"
  "sum_list (map spent_sats (coin_entries op c)) = (if is_unspent c then 0 else unat (coin_value c))"
  by (auto simp: coin_entries_def is_unspent_def split: option.split)

lemma history_sums:
  assumes "enumerates order (dom (utxos w))"
  shows "sum_list (map received_sats (history order w))
     = total_value is_unspent w + sum_list (map spent_sats (history order w))"
proof -
  let ?es = "concat (map (\<lambda>op. coin_entries op (the (utxos w op))) order)"
  let ?v = "\<lambda>op. unat (coin_value (the (utxos w op)))"
  have m: "mset (history order w) = mset ?es" by (simp add: history_def)
  have "sum_list (map received_sats ?es) = (\<Sum>op \<leftarrow> order. ?v op)"
    by (simp add: sum_list_concat comp_def coin_entries_sums)
  also have "\<dots> = sum_list (map ?v (filter (\<lambda>op. is_unspent (the (utxos w op))) order))
      + (\<Sum>op \<leftarrow> order. if is_unspent (the (utxos w op)) then 0 else ?v op)"
    by (induction order) auto
  also have "(\<Sum>op \<leftarrow> order. if is_unspent (the (utxos w op)) then 0 else ?v op) = sum_list (map spent_sats ?es)"
    by (simp add: sum_list_concat comp_def coin_entries_sums)
  also have "sum_list (map ?v (filter (\<lambda>op. is_unspent (the (utxos w op))) order)) = total_value is_unspent w"
    using sum_list_filter_coins [OF assms, of is_unspent] by (simp add: filter_map comp_def)
  finally show ?thesis using sum_list_mset_eq [OF m] by simp
qed

section \<open>Coins have taproot scripts\<close>

definition p2tr_coins :: "(outpoint \<rightharpoonup> coin) \<Rightarrow> bool" where
  "p2tr_coins us \<longleftrightarrow> (\<forall>op c. us op = Some c \<longrightarrow> length (coin_script c) = 34)"

text \<open>Where a found coin comes from, and what that gives for all coins of the wallet.\<close>

lemma found_coins_origin:
  "found_coins tx height ms = Some cs \<Longrightarrow> p \<in> set cs \<Longrightarrow>
     \<exists>i t l. (i, t, l) \<in> set ms \<and> p = coin_of tx height i t l"
  by (induction ms arbitrary: cs) (fastforce simp: coin_of_def split: if_splits)+

lemma scan_tx_origin:
  assumes "scan_tx sp receiver b_scan height tx spent = Some found" "p \<in> set found"
  shows "\<exists>i t l inputs xs pk. p = coin_of tx height i t l \<and> pays sp receiver b_scan inputs xs pk t l
     \<and> first_output sp (ktx_outputs tx) i pk"
proof -
  let ?outs = "taproot_outputs_of sp 0 (ktx_outputs tx)"
  obtain inputs where "found_coins tx height (scan_transaction sp receiver b_scan inputs ?outs) = Some found"
    using assms by (auto simp: scan_tx_def Let_def split: option.splits if_splits)
  from found_coins_origin [OF this assms(2)] show ?thesis unfolding scan_transaction_set by blast
qed

lemma scan_txs_origin:
  "scan_txs sp receiver b_scan height ps = Some found \<Longrightarrow> p \<in> set found \<Longrightarrow>
     \<exists>tx i t l inputs xs pk. p = coin_of tx height i t l \<and> pays sp receiver b_scan inputs xs pk t l
       \<and> first_output sp (ktx_outputs tx) i pk"
proof (induction ps arbitrary: found)
  case (Cons q ps)
  obtain tx spent where q: "q = (tx, spent)" by fastforce
  with Cons.prems(1) obtain f1 f2 where found: "scan_tx sp receiver b_scan height tx spent = Some f1"
    "scan_txs sp receiver b_scan height ps = Some f2" "found = f1 @ f2"
    by (auto split: option.splits)
  from Cons.prems(2) found(3) consider "p \<in> set f1" | "p \<in> set f2" by auto
  then show ?case
  proof cases
    case 1
    then show ?thesis using scan_tx_origin [OF found(1)] by blast
  qed (rule Cons.IH [OF found(2)])
qed simp

lemma scan_block_coins:
  assumes new: "\<And>c inputs r b xs pk. pays sp r b inputs xs pk (coin_tweak c) (coin_label c) \<Longrightarrow>
        parse_p2tr sp (coin_script c) = Some pk \<Longrightarrow> P c"
    and keep: "\<And>c s. P c \<Longrightarrow> P (c\<lparr>coin_spent_by := s\<rparr>)"
    and old: "\<And>op c. utxos w op = Some c \<Longrightarrow> P c"
    and scan: "scan_block sp block spents height w = Some (n, w')" and at: "utxos w' op = Some c"
  shows "P c"
proof (cases "keys w")
  case None
  then show ?thesis using scan at old by (simp add: scan_block_def)
next
  case (Some k)
  then obtain found where found: "scan_block_inner sp (keys_receiver k) (keys_scan_key k) block spents height = Some found"
    "utxos w' = mark_spends height block (insert_coins found (utxos w))"
    using scan by (auto simp: scan_block_def)
  have "P c" if inf: "(op, c) \<in> set found" for op c
  proof -
    obtain tx i t l inputs xs pk where "(op, c) = coin_of tx height i t l"
      "pays sp (keys_receiver k) (keys_scan_key k) inputs xs pk t l" "first_output sp (ktx_outputs tx) i pk"
      using scan_txs_origin [OF found(1) [unfolded scan_block_inner_def] inf] by (elim exE conjE)
    then show ?thesis by (intro new) (auto simp: coin_of_def first_output_def)
  qed
  then have ins: "insert_coins found (utxos w) op = Some c \<Longrightarrow> P c" for op c
    using old by (auto simp: insert_coins_map map_add_Some_iff dest!: map_of_SomeD)
  show ?thesis
    using at ins keep unfolding found(2) by (auto simp: mark_spends_eq split: option.splits)
qed

lemma scan_block_p2tr:
  assumes "\<And>s. sp_is_p2tr sp s \<Longrightarrow> length s = 34" "p2tr_coins (utxos w)"
    and "scan_block sp block spents height w = Some (n, w')"
  shows "p2tr_coins (utxos w')"
proof -
  have "length (coin_script c) = 34" if "utxos w' op = Some c" for op c
    using assms(1,2)
    by (intro scan_block_coins [of sp "\<lambda>c. length (coin_script c) = 34", OF _ _ _ assms(3) that])
      (auto simp: p2tr_coins_def parse_p2tr_def split: if_splits)
  then show ?thesis by (simp add: p2tr_coins_def)
qed

lemma process_disconnect_p2tr: "p2tr_coins (utxos w) \<Longrightarrow> p2tr_coins (utxos (process_disconnect block w))"
  by (auto simp: p2tr_coins_def process_disconnect_def forget_block_def Let_def unspend_def split: if_splits option.splits)

text \<open>Forgetting the spends of a block undoes marking them on a coin that was not spent before.\<close>

lemma unspend_mark_spends:
  assumes "\<And>c s. us op = Some c \<Longrightarrow> coin_spent_by c = Some s \<Longrightarrow>
      sb_txid s \<notin> ktx_txid ` set block \<and> spender block op = None"
  shows "map_option (unspend (ktx_txid ` set block)) (mark_spends h block us op) = us op"
proof (cases "us op")
  case None
  then show ?thesis by (simp add: mark_spends_eq split: option.split)
next
  case (Some c)
  show ?thesis
  proof (cases "coin_spent_by c")
    case None
    then have "c\<lparr>coin_spent_by := None\<rparr> = c" by (cases c) simp
    then show ?thesis using Some None spender_in [of block op]
      by (auto simp: mark_spends_eq unspend_def split: option.split)
  next
    case s: (Some s)
    then show ?thesis using Some assms [OF Some s] by (simp add: mark_spends_eq unspend_def)
  qed
qed

text \<open>Forgetting a block undoes scanning it, when it is new to the coins.\<close>

lemma forget_scanned:
  assumes found: "scan_block_inner sp receiver b_scan block spents height = Some found"
    and new: "\<And>op c. us op = Some c \<Longrightarrow> op_txid op \<notin> ktx_txid ` set block
            \<and> (\<forall>s. coin_spent_by c = Some s \<longrightarrow> sb_txid s \<notin> ktx_txid ` set block \<and> spender block op = None)"
  shows "forget_block block (mark_spends height block (insert_coins found us)) = us"
proof
  fix op
  show "forget_block block (mark_spends height block (insert_coins found us)) op = us op"
  proof (cases "op_txid op \<in> ktx_txid ` set block")
    case True
    then have "us op = None" using new by (cases "us op") auto
    with True show ?thesis by (simp add: forget_block_def)
  next
    case False
    note same = scan_block_inner_eq [OF found False, of us]
    have "map_option (unspend (ktx_txid ` set block)) (mark_spends height block (insert_coins found us) op) = us op"
      using unspend_mark_spends [of "insert_coins found us" op block height] new by (simp add: same)
    with False show ?thesis by (simp add: forget_block_def)
  qed
qed

section \<open>Properties\<close>


text \<open>
  C19: A reorganisation undoes a scan: disconnecting a block right after scanning it gives
  back the wallet as it was, the scan height apart, provided the block is new to the wallet
  and spends none of the wallet's coins twice.
\<close>

theorem reorg_restores:
  assumes "scan_block sp block spents height w = Some (n, w')" "keys w \<noteq> None"
    and "\<forall>op c. utxos w op = Some c \<longrightarrow> op_txid op \<notin> ktx_txid ` set block
            \<and> (\<forall>s. coin_spent_by c = Some s \<longrightarrow> sb_txid s \<notin> ktx_txid ` set block \<and> spender block op = None)"
  shows "process_disconnect block w' = w\<lparr>scan_height := height\<rparr>"
proof -
  obtain k found where k: "keys w = Some k"
    and found: "scan_block_inner sp (keys_receiver k) (keys_scan_key k) block spents height = Some found"
    and w': "w' = w\<lparr>utxos := mark_spends height block (insert_coins found (utxos w)), scan_height := height\<rparr>"
    using assms(1,2) by (auto simp: scan_block_def)
  have "forget_block block (utxos w') = utxos w"
    unfolding w' using assms(3) by (simp add: forget_scanned [OF found])
  then show ?thesis by (simp add: process_disconnect_def w')
qed

text \<open>
  C28: The balance is what the history says: when the unspent coins fit in 64 bits the
  balance is the sum of their values, and the sats received in the history are the balance
  plus the sats spent in it, whatever order the two iterate the coins in; the history is
  sorted by height.  When the coins do not fit the sum panics.
\<close>

theorem balance_from_history:
  assumes "enumerates order (dom (utxos w))" "enumerates order' (dom (utxos w))"
  shows "(case balance order w of
            Some b \<Rightarrow> unat b = total_value is_unspent w
              \<and> sum_list (map received_sats (history order' w)) = unat b + sum_list (map spent_sats (history order' w))
          | None \<Rightarrow> 2 ^ 64 \<le> total_value is_unspent w)
     \<and> sorted (map entry_at (history order' w))"
proof -
  let ?vs = "map coin_value (filter is_unspent (map (\<lambda>op. the (utxos w op)) order))"
  have sum: "sum_list (map unat ?vs) = total_value is_unspent w"
    by (rule sum_list_filter_coins [OF assms(1)])
  have "balance order w = (if total_value is_unspent w < 2 ^ 64 then Some (sum_list ?vs) else None)"
    unfolding balance_def sum_amounts_eq using sum by simp
  moreover have "total_value is_unspent w < 2 ^ 64 \<Longrightarrow> unat (sum_list ?vs) = total_value is_unspent w"
    using unat_sum_list [of ?vs] sum by simp
  moreover have "sorted (map entry_at (history order' w))" by (simp add: history_def)
  ultimately show ?thesis using history_sums [OF assms(2)] by simp
qed

section \<open>Witnesses\<close>

text \<open>A receiver that recognises the output key 5, and a block that pays it and spends a known coin.\<close>

definition demo_sp :: "(unit, xonly, unit) silent_payments" where
  "demo_sp = \<lparr>sp_public_key = (\<lambda>k. k), sp_x_only = (\<lambda>p. (p, False)), sp_even_key = (\<lambda>x. x), sp_negate = (\<lambda>k. - k),
     sp_label = (\<lambda>k i. 1), sp_receiver = (\<lambda>s b l n. Inr ()), sp_receiving_code = (\<lambda>r. ''sp1''),
     sp_pubkey_from_input = (\<lambda>s wit p. Inr (Some 9)), sp_tweak_data = (\<lambda>ks ops. Inr ()),
     sp_shared_secret = (\<lambda>td k. 3), sp_scan = (\<lambda>r s xs. Inr (if 5 \<in> set xs then [(None, [(5, 77)])] else [])),
     sp_is_p2tr = (\<lambda>s. length s = 34), sp_parse_xonly = (\<lambda>bs. Some (ucast (hd bs)))\<rparr>"

definition demo_script :: "u8 \<Rightarrow> u8 list" where
  "demo_script b = [0x51, 0x20, b] @ replicate 31 0"

definition demo_op :: outpoint where "demo_op = \<lparr>op_txid = 1, op_vout = 0\<rparr>"

definition demo_coin :: coin where
  "demo_coin = \<lparr>coin_value = 1000, coin_script = demo_script 5, coin_tweak = 77, coin_label = None,
     coin_height = 10, coin_spent_by = None\<rparr>"

definition demo_chain_block :: "kernel_tx list" where
  "demo_chain_block =
     [\<lparr>ktx_txid = 2, ktx_inputs = [], ktx_outputs = []\<rparr>,
      \<lparr>ktx_txid = 3, ktx_inputs = [\<lparr>in_outpoint = demo_op, in_script_sig = Some [], in_witness = []\<rparr>],
       ktx_outputs = [\<lparr>out_value = 400, out_script = demo_script 4\<rparr>, \<lparr>out_value = 600, out_script = demo_script 5\<rparr>]\<rparr>]"

definition demo_wallet :: "(unit, xonly) wallet" where
  "demo_wallet = \<lparr>scan_height = 10, keys = Some \<lparr>keys_receiver = (), keys_scan_key = 8\<rparr>, spend_key = Some 6,
     spend_secret = Some 6, wallet_net = Regtest, utxos = [demo_op \<mapsto> demo_coin], reserved = {}\<rparr>"

lemma demo_undo: "\<forall>(tx, spent) \<in> set (zip (drop 1 demo_chain_block) [[demo_script 5]]). undo_matches tx spent"
  by (simp add: demo_chain_block_def undo_matches_def)

lemma demo_keys: "keys demo_wallet = Some \<lparr>keys_receiver = (), keys_scan_key = 8\<rparr>"
  by (simp add: demo_wallet_def)


theorem reorg_restores_witness:
  "\<exists>n w'. scan_block demo_sp demo_chain_block [[demo_script 5]] 11 demo_wallet = Some (n, w')
     \<and> process_disconnect demo_chain_block w' = demo_wallet\<lparr>scan_height := 11\<rparr>"
proof -
  obtain n w' where scan: "scan_block demo_sp demo_chain_block [[demo_script 5]] 11 demo_wallet = Some (n, w')"
    using scan_txs_found [OF demo_undo, of demo_sp "()" 8 11] by (auto simp: scan_block_def scan_block_inner_def demo_keys)
  moreover have "process_disconnect demo_chain_block w' = demo_wallet\<lparr>scan_height := 11\<rparr>"
    by (rule reorg_restores [OF scan])
      (auto simp: demo_keys demo_wallet_def demo_coin_def demo_op_def demo_chain_block_def split: if_splits)
  ultimately show ?thesis by blast
qed

theorem balance_from_history_witness:
  "balance [demo_op] demo_wallet = Some 1000
     \<and> sum_list (map received_sats (history [demo_op] demo_wallet))
       = 1000 + sum_list (map spent_sats (history [demo_op] demo_wallet))"
proof -
  have "enumerates [demo_op] (dom (utxos demo_wallet))" by (simp add: enumerates_def demo_wallet_def)
  moreover have "balance [demo_op] demo_wallet = Some 1000"
    by (simp add: balance_def demo_wallet_def demo_coin_def is_unspent_def checked_add_def)
  ultimately show ?thesis using balance_from_history [of "[demo_op]" demo_wallet "[demo_op]"] by simp
qed

end
