(* ===== verification/Sending.thy ===== *)
theory Sending
  imports Wallet Handshake "HOL-Library.Multiset"
begin

text \<open>
  Building and signing a transaction (wallet/src/silentpayments/sending.rs).  The functions
  of \<open>bdk_coin_select\<close>, \<open>silentpayments\<close>, \<open>secp256k1\<close> and \<open>bitcoin\<close> that the code
  calls are the fields of the argument \<open>E\<close>, as are the two shuffles.  A coin selector is an
  abstract state \<open>'cs\<close>, a fee rate of the selector a value of \<open>'f\<close>.
\<close>

datatype send_error =
    WatchOnly
  | NoSpendableCoins
  | DustAmount u64 u64
  | InsufficientFunds u64 u64
  | RecipientNetworkMismatch
  | InvalidRecipient string
  | OutputDerivation
  | SilentPaymentsError string
  | SecpError string
  | SighashError string

definition is_user_error :: "send_error \<Rightarrow> bool" where
  "is_user_error e =
     (case e of
        WatchOnly \<Rightarrow> True | NoSpendableCoins \<Rightarrow> True | DustAmount _ _ \<Rightarrow> True | InsufficientFunds _ _ \<Rightarrow> True
      | RecipientNetworkMismatch \<Rightarrow> True | InvalidRecipient _ \<Rightarrow> True | _ \<Rightarrow> False)"

datatype 'code recipient = SilentPayment 'code | Address "u8 list"

type_synonym spendable_coin = "outpoint \<times> coin"

record txin =
  ti_prev :: outpoint
  ti_script_sig :: "u8 list"
  ti_sequence :: u32
  ti_witness :: "u8 list list"

record txout =
  to_value :: u64
  to_script :: "u8 list"

record transaction =
  tx_version :: u32
  tx_lock_time :: u32
  tx_input :: "txin list"
  tx_output :: "txout list"

record 'f target =
  tg_feerate :: 'f
  tg_weight :: u64
  tg_amount :: u64

record 'f change_policy =
  cp_min_value :: u64
  cp_feerate :: 'f
  cp_long_term :: 'f

text \<open>
  \<open>cs_run_bnb\<close> says whether branch and bound found a selection; \<open>cs_until\<close> reports what
  is missing; \<open>cs_drain\<close> is the value of the change output, if there is one;
  \<open>cs_selected\<close> the selected candidates by index.
\<close>

record ('cs, 'f, 'code, 'km, 'ps, 'r) send_env =
  cs_feerate :: "u64 \<Rightarrow> 'f"
  cs_new :: "u64 list \<Rightarrow> 'cs"
  cs_run_bnb :: "'f target \<Rightarrow> 'f \<Rightarrow> 'f change_policy \<Rightarrow> nat \<Rightarrow> 'cs \<Rightarrow> bool \<times> 'cs"
  cs_sort :: "'cs \<Rightarrow> 'cs"
  cs_until :: "'f target \<Rightarrow> 'cs \<Rightarrow> u64 + 'cs"
  cs_drain :: "'f target \<Rightarrow> 'f change_policy \<Rightarrow> 'cs \<Rightarrow> u64 option"
  cs_selected :: "'cs \<Rightarrow> nat list"
  tr_output_weight :: u64
  minimal_non_dust :: "u8 list \<Rightarrow> u64"
  p2tr_script :: "xonly \<Rightarrow> u8 list"
  secret_xonly :: "secret_key \<Rightarrow> xonly"
  add_tweak :: "secret_key \<Rightarrow> scalar \<Rightarrow> string + secret_key"
  partial_secret :: "(secret_key \<times> bool) list \<Rightarrow> u8 list list \<Rightarrow> string + 'ps"
  key_material :: "'code \<Rightarrow> 'km"
  recipient_pubkeys :: "'km list \<Rightarrow> 'ps \<Rightarrow> string + ('km \<rightharpoonup> xonly list)"
  lock_height :: "u32 \<Rightarrow> u32 option"
  sighash :: "transaction \<Rightarrow> txout list \<Rightarrow> nat \<Rightarrow> string + u8 list"
  sign_schnorr :: "secret_key \<Rightarrow> u8 list \<Rightarrow> u8 list"
  change_code :: "'r \<Rightarrow> 'code"
  parse_code :: "string \<Rightarrow> 'code option"
  code_network :: "'code \<Rightarrow> wallet_network"
  parse_address :: "string \<Rightarrow> network \<Rightarrow> string + (unit + u8 list)"
  shuffle_coins :: "spendable_coin list \<Rightarrow> spendable_coin list"
  shuffle_outputs :: "txout list \<Rightarrow> txout list"

section \<open>Recipients\<close>

definition bitcoin_network :: "wallet_network \<Rightarrow> network" where
  "bitcoin_network n =
     (case n of
        wallet_network.Mainnet \<Rightarrow> network.Bitcoin
      | wallet_network.Testnet \<Rightarrow> network.Testnet
      | wallet_network.Regtest \<Rightarrow> network.Regtest)"

text \<open>\<open>parse_address\<close> is the syntax check, then the check of the network.\<close>

definition recipient_parse ::
    "('cs, 'f, 'code, 'km, 'ps, 'r) send_env \<Rightarrow> string \<Rightarrow> wallet_network \<Rightarrow> send_error + 'code recipient" where
  "recipient_parse E s net =
     (case parse_code E s of
        Some code \<Rightarrow>
          (if code_network E code \<noteq> net then Inl RecipientNetworkMismatch else Inr (SilentPayment code))
      | None \<Rightarrow>
          rbind (map_err InvalidRecipient (parse_address E s (bitcoin_network net))) (\<lambda>checked.
          rbind (map_err (\<lambda>_. RecipientNetworkMismatch) checked) (\<lambda>script. Inr (Address script))))"

section \<open>Coin selection\<close>

definition saturating_add :: "u64 \<Rightarrow> u64 \<Rightarrow> u64" where
  "saturating_add a b = (if unat a + unat b < 2 ^ 64 then a + b else - 1)"

definition select_coins ::
    "('cs, 'f, 'code, 'km, 'ps, 'r) send_env \<Rightarrow> spendable_coin list \<Rightarrow> 'f target \<Rightarrow> 'f change_policy \<Rightarrow> u64 \<Rightarrow> nat
       \<Rightarrow> send_error + (spendable_coin list \<times> u64 option)" where
  "select_coins E coins target policy long_term_fee_rate max_bnb_rounds =
     (let selector = cs_new E (map (coin_value \<circ> snd) coins);
          (found, selector) = cs_run_bnb E target (cs_feerate E long_term_fee_rate) policy max_bnb_rounds selector in
      rbind (if found then Inr selector
             else map_err (\<lambda>missing.
                    let available = foldl (\<lambda>acc c. saturating_add acc (coin_value (snd c))) 0 coins in
                    InsufficientFunds (saturating_add available missing) available)
                  (cs_until E target (cs_sort E selector))) (\<lambda>selector.
      Inr (map ((!) coins) (cs_selected E selector), cs_drain E target policy selector)))"

section \<open>The transaction\<close>

fun rmap :: "('a \<Rightarrow> 'e + 'b) \<Rightarrow> 'a list \<Rightarrow> 'e + 'b list" where
  "rmap f [] = Inr []"
| "rmap f (x # xs) = rbind (f x) (\<lambda>y. rbind (rmap f xs) (\<lambda>ys. Inr (y # ys)))"

definition output_weight :: "nat \<Rightarrow> u64" where
  "output_weight script_length = word_of_nat ((8 + 1 + script_length) * 4)"

definition p2tr_dust :: "('cs, 'f, 'code, 'km, 'ps, 'r) send_env \<Rightarrow> secret_key \<Rightarrow> u64" where
  "p2tr_dust E secret = minimal_non_dust E (p2tr_script E (secret_xonly E secret))"

definition sp_output_script ::
    "('cs, 'f, 'code, 'km, 'ps, 'r) send_env \<Rightarrow> ('km \<rightharpoonup> xonly list) \<Rightarrow> 'code \<Rightarrow> send_error + u8 list" where
  "sp_output_script E derived code =
     (case derived (key_material E code) of
        Some (x # _) \<Rightarrow> Inr (p2tr_script E x)
      | _ \<Rightarrow> Inl OutputDerivation)"

definition derive_keys ::
    "('cs, 'f, 'code, 'km, 'ps, 'r) send_env \<Rightarrow> secret_key list \<Rightarrow> spendable_coin list \<Rightarrow> 'code recipient \<Rightarrow> 'code
       \<Rightarrow> bool \<Rightarrow> send_error + ('km \<rightharpoonup> xonly list)" where
  "derive_keys E signing_keys selected recipient change_address has_change =
     (if (case recipient of SilentPayment _ \<Rightarrow> True | Address _ \<Rightarrow> False) \<or> has_change then
        rbind (map_err SilentPaymentsError (partial_secret E (map (\<lambda>k. (k, True)) signing_keys)
                 (map (outpoint_bytes \<circ> fst) selected))) (\<lambda>partial.
        map_err SilentPaymentsError (recipient_pubkeys E
          ((case recipient of SilentPayment code \<Rightarrow> [key_material E code] | Address _ \<Rightarrow> [])
           @ (if has_change then [key_material E change_address] else [])) partial))
      else Inr Map.empty)"

definition unsigned_input :: "spendable_coin \<Rightarrow> txin" where
  "unsigned_input c = \<lparr>ti_prev = fst c, ti_script_sig = [], ti_sequence = 0xFFFFFFFD, ti_witness = []\<rparr>"

definition prevout :: "spendable_coin \<Rightarrow> txout" where
  "prevout c = \<lparr>to_value = coin_value (snd c), to_script = coin_script (snd c)\<rparr>"

definition unsigned_tx ::
    "('cs, 'f, 'code, 'km, 'ps, 'r) send_env \<Rightarrow> u32 \<Rightarrow> spendable_coin list \<Rightarrow> txout list \<Rightarrow> transaction" where
  "unsigned_tx E tip_height selected outputs =
     \<lparr>tx_version = 2, tx_lock_time = (case lock_height E tip_height of Some l \<Rightarrow> l | None \<Rightarrow> 0),
      tx_input = map unsigned_input selected, tx_output = outputs\<rparr>"

definition sign_inputs ::
    "('cs, 'f, 'code, 'km, 'ps, 'r) send_env \<Rightarrow> transaction \<Rightarrow> txout list \<Rightarrow> secret_key list \<Rightarrow> send_error + transaction" where
  "sign_inputs E tx prevouts signing_keys =
     rbind (rmap (\<lambda>(i, key). rbind (map_err SighashError (sighash E tx prevouts i)) (\<lambda>digest.
              Inr [sign_schnorr E key digest])) (zip [0..<length signing_keys] signing_keys)) (\<lambda>witnesses.
     Inr (tx\<lparr>tx_input := map (\<lambda>(txin, wit). txin\<lparr>ti_witness := wit\<rparr>) (zip (tx_input tx) witnesses)
                @ drop (length witnesses) (tx_input tx)\<rparr>))"

definition build_outputs ::
    "('cs, 'f, 'code, 'km, 'ps, 'r) send_env \<Rightarrow> 'code recipient \<Rightarrow> u64 \<Rightarrow> 'code \<Rightarrow> u64 option \<Rightarrow> ('km \<rightharpoonup> xonly list)
       \<Rightarrow> send_error + txout list" where
  "build_outputs E recipient amount change_address change_value derived =
     rbind (case recipient of
              Address script \<Rightarrow> Inr script
            | SilentPayment code \<Rightarrow> sp_output_script E derived code) (\<lambda>recipient_script.
     rbind (case change_value of
              None \<Rightarrow> Inr []
            | Some value \<Rightarrow>
                rbind (sp_output_script E derived change_address) (\<lambda>script.
                Inr [\<lparr>to_value = value, to_script = script\<rparr>])) (\<lambda>change.
     Inr (\<lparr>to_value = amount, to_script = recipient_script\<rparr> # change)))"

definition build_from_coins ::
    "('cs, 'f, 'code, 'km, 'ps, 'r) send_env \<Rightarrow> secret_key \<Rightarrow> 'code recipient \<Rightarrow> u64 \<Rightarrow> u64 \<Rightarrow> u64 \<Rightarrow> u32 \<Rightarrow> 'code
       \<Rightarrow> spendable_coin list \<Rightarrow> send_error + transaction" where
  "build_from_coins E secret recipient amount fee_rate long_term_fee_rate tip_height change_address coins =
     rbind (check (coins \<noteq> []) NoSpendableCoins) (\<lambda>_.
     let recipient_dust = (case recipient of Address s \<Rightarrow> minimal_non_dust E s | SilentPayment _ \<Rightarrow> p2tr_dust E secret) in
     rbind (check (\<not> amount < recipient_dust) (DustAmount amount recipient_dust)) (\<lambda>_.
     let recipient_weight = (case recipient of Address s \<Rightarrow> output_weight (length s) | SilentPayment _ \<Rightarrow> tr_output_weight E);
         feerate = cs_feerate E fee_rate;
         target = \<lparr>tg_feerate = feerate, tg_weight = recipient_weight, tg_amount = amount\<rparr>;
         policy = \<lparr>cp_min_value = p2tr_dust E secret, cp_feerate = feerate, cp_long_term = cs_feerate E long_term_fee_rate\<rparr> in
     rbind (select_coins E coins target policy long_term_fee_rate 100000) (\<lambda>(selected, change_value).
     let selected = shuffle_coins E selected in
     rbind (map_err SecpError (rmap (\<lambda>c. add_tweak E secret (coin_tweak (snd c))) selected)) (\<lambda>signing_keys.
     rbind (derive_keys E signing_keys selected recipient change_address (change_value \<noteq> None)) (\<lambda>derived.
     rbind (build_outputs E recipient amount change_address change_value derived) (\<lambda>outputs.
     sign_inputs E (unsigned_tx E tip_height selected (shuffle_outputs E outputs)) (map prevout selected) signing_keys))))))"

text \<open>\<open>Wallet::build_transaction\<close>; \<open>order\<close> is the order in which the coins are iterated.\<close>

definition build_transaction ::
    "('cs, 'f, 'code, 'km, 'ps, 'r) send_env \<Rightarrow> outpoint list \<Rightarrow> 'code recipient \<Rightarrow> u64 \<Rightarrow> u64 \<Rightarrow> u64 \<Rightarrow> ('r, 'pk) wallet
       \<Rightarrow> send_error + transaction" where
  "build_transaction E order recipient amount fee_rate long_term_fee_rate w =
     rbind (ok_or WatchOnly (spend_secret w)) (\<lambda>secret.
     rbind (ok_or WatchOnly (keys w)) (\<lambda>k.
     build_from_coins E secret recipient amount fee_rate long_term_fee_rate (scan_height w) (change_code E (keys_receiver k))
       (filter (\<lambda>(op, c). is_unspent c \<and> op \<notin> reserved w) (map (\<lambda>op. (op, the (utxos w op))) order))))"

section \<open>What the code relies on of coin selection and shuffling\<close>

text \<open>
  A selector over candidates of given values selects distinct candidates; when a selection
  was found, its value covers the amount and the change.  A shuffle permutes.
\<close>

definition funded ::
    "('cs, 'f, 'code, 'km, 'ps, 'r) send_env \<Rightarrow> u64 list \<Rightarrow> 'f target \<Rightarrow> 'cs \<Rightarrow> bool" where
  "funded E vs t cs \<longleftrightarrow>
     (\<forall>p. unat (tg_amount t) + (case cs_drain E t p cs of None \<Rightarrow> 0 | Some v \<Rightarrow> unat v)
        \<le> (\<Sum>i \<leftarrow> cs_selected E cs. unat (vs ! i)))"

definition send_laws :: "('cs, 'f, 'code, 'km, 'ps, 'r) send_env \<Rightarrow> (u64 list \<Rightarrow> 'cs \<Rightarrow> bool) \<Rightarrow> bool" where
  "send_laws E ok \<longleftrightarrow>
     (\<forall>vs. ok vs (cs_new E vs))
     \<and> (\<forall>vs t f p n cs found cs'. ok vs cs \<longrightarrow> cs_run_bnb E t f p n cs = (found, cs') \<longrightarrow>
          ok vs cs' \<and> (found \<longrightarrow> funded E vs t cs'))
     \<and> (\<forall>vs cs. ok vs cs \<longrightarrow> ok vs (cs_sort E cs))
     \<and> (\<forall>vs t cs cs'. ok vs cs \<longrightarrow> cs_until E t cs = Inr cs' \<longrightarrow> ok vs cs' \<and> funded E vs t cs')
     \<and> (\<forall>vs cs. ok vs cs \<longrightarrow> distinct (cs_selected E cs) \<and> (\<forall>i \<in> set (cs_selected E cs). i < length vs))
     \<and> (\<forall>xs. mset (shuffle_coins E xs) = mset xs) \<and> (\<forall>xs. mset (shuffle_outputs E xs) = mset xs)"

lemma send_lawsD:
  assumes "send_laws E ok"
  shows "ok vs (cs_new E vs)"
    and "ok vs cs \<Longrightarrow> cs_run_bnb E t f p n cs = (found, cs') \<Longrightarrow> ok vs cs' \<and> (found \<longrightarrow> funded E vs t cs')"
    and "ok vs cs \<Longrightarrow> ok vs (cs_sort E cs)"
    and "ok vs cs \<Longrightarrow> cs_until E t cs = Inr cs' \<Longrightarrow> ok vs cs' \<and> funded E vs t cs'"
    and "ok vs cs \<Longrightarrow> distinct (cs_selected E cs)"
    and "ok vs cs \<Longrightarrow> i \<in> set (cs_selected E cs) \<Longrightarrow> i < length vs"
    and "mset (shuffle_coins E xs) = mset xs" "mset (shuffle_outputs E ys) = mset ys"
proof -
  note l = assms [unfolded send_laws_def]
  show "ok vs (cs_new E vs)" by (rule l [THEN conjunct1, rule_format])
  show "ok vs cs \<Longrightarrow> cs_run_bnb E t f p n cs = (found, cs') \<Longrightarrow> ok vs cs' \<and> (found \<longrightarrow> funded E vs t cs')"
    by (rule l [THEN conjunct2, THEN conjunct1, THEN spec, THEN spec, THEN spec, THEN spec, THEN spec, THEN spec, THEN spec, THEN spec, THEN mp, THEN mp])
  show "ok vs cs \<Longrightarrow> ok vs (cs_sort E cs)" by (rule l [THEN conjunct2, THEN conjunct2, THEN conjunct1, rule_format])
  show "ok vs cs \<Longrightarrow> cs_until E t cs = Inr cs' \<Longrightarrow> ok vs cs' \<and> funded E vs t cs'"
    by (rule l [THEN conjunct2, THEN conjunct2, THEN conjunct2, THEN conjunct1, THEN spec, THEN spec, THEN spec, THEN spec, THEN mp, THEN mp])
  show "ok vs cs \<Longrightarrow> distinct (cs_selected E cs)"
    by (rule l [THEN conjunct2, THEN conjunct2, THEN conjunct2, THEN conjunct2, THEN conjunct1, THEN spec, THEN spec, THEN mp, THEN conjunct1])
  show "ok vs cs \<Longrightarrow> i \<in> set (cs_selected E cs) \<Longrightarrow> i < length vs"
    by (rule l [THEN conjunct2, THEN conjunct2, THEN conjunct2, THEN conjunct2, THEN conjunct1, THEN spec, THEN spec, THEN mp, THEN conjunct2, THEN bspec])
  show "mset (shuffle_coins E xs) = mset xs" by (rule l [THEN conjunct2, THEN conjunct2, THEN conjunct2, THEN conjunct2, THEN conjunct2, THEN conjunct1, rule_format])
  show "mset (shuffle_outputs E ys) = mset ys" by (rule l [THEN conjunct2, THEN conjunct2, THEN conjunct2, THEN conjunct2, THEN conjunct2, THEN conjunct2, rule_format])
qed

lemma rmap_Inr_iff: "rmap f xs = Inr ys \<longleftrightarrow> list_all2 (\<lambda>x y. f x = Inr y) xs ys"
proof (induction xs arbitrary: ys)
  case Nil
  then show ?case by auto
next
  case (Cons x xs)
  then show ?case by (cases ys) (auto simp: rbind_Inr_iff)
qed

lemma select_coins_sound:
  assumes "send_laws E ok" "select_coins E coins t p lt n = Inr (selected, change)" "distinct (map fst coins)"
  shows "set selected \<subseteq> set coins" "distinct (map fst selected)"
    and "unat (tg_amount t) + (case change of None \<Rightarrow> 0 | Some v \<Rightarrow> unat v)
      \<le> (\<Sum>c \<leftarrow> selected. unat (coin_value (snd c)))"
proof -
  let ?vs = "map (coin_value \<circ> snd) coins"
  obtain found cs1 where bnb: "cs_run_bnb E t (cs_feerate E lt) p n (cs_new E ?vs) = (found, cs1)" by fastforce
  note laws = send_lawsD [OF assms(1)]
  have ok1: "ok ?vs cs1" "found \<Longrightarrow> funded E ?vs t cs1"
    using laws(2) [OF laws(1) bnb] by simp_all
  obtain cs where cs: "selected = map ((!) coins) (cs_selected E cs)" "change = cs_drain E t p cs"
    "if found then cs = cs1 else cs_until E t (cs_sort E cs1) = Inr cs"
    using assms(2) bnb by (auto simp: select_coins_def Let_def rbind_Inr_iff split: if_splits)
  have good: "ok ?vs cs \<and> funded E ?vs t cs"
    using cs(3) ok1 laws(4) [OF laws(3) [OF ok1(1)], of t cs] by (simp split: if_splits)
  have sel: "distinct (cs_selected E cs)" "i \<in> set (cs_selected E cs) \<Longrightarrow> i < length coins" for i
    using laws(5,6) [OF conjunct1 [OF good]] by simp_all
  show "set selected \<subseteq> set coins" using sel(2) cs(1) by auto
  have "inj_on ((!) (map fst coins)) (set (cs_selected E cs))"
    using sel(2) by (intro inj_on_nth [OF assms(3)]) simp
  then have "distinct (map ((!) (map fst coins)) (cs_selected E cs))"
    unfolding distinct_map using sel(1) by blast
  moreover have "map fst selected = map ((!) (map fst coins)) (cs_selected E cs)"
    using sel(2) cs(1) by simp
  ultimately show "distinct (map fst selected)" by simp
  have "(\<Sum>i \<leftarrow> cs_selected E cs. unat (?vs ! i)) = (\<Sum>c \<leftarrow> selected. unat (coin_value (snd c)))"
    using sel(2) cs(1) by (auto simp: comp_def intro!: arg_cong [where f = sum_list])
  then show "unat (tg_amount t) + (case change of None \<Rightarrow> 0 | Some v \<Rightarrow> unat v)
      \<le> (\<Sum>c \<leftarrow> selected. unat (coin_value (snd c)))"
    using good cs(2) by (simp add: funded_def)
qed

lemma build_outputs_sound:
  assumes "build_outputs E recipient amount change_address change derived = Inr outs"
  shows "\<exists>rs chg. outs = \<lparr>to_value = amount, to_script = rs\<rparr> # chg \<and> length chg \<le> 1
      \<and> (\<forall>s. recipient = Address s \<longrightarrow> rs = s)
      \<and> (\<Sum>x \<leftarrow> outs. unat (to_value x)) = unat amount + (case change of None \<Rightarrow> 0 | Some v \<Rightarrow> unat v)"
  using assms by (cases recipient; cases change) (auto simp: build_outputs_def rbind_Inr_iff)

lemma sign_inputs_sound:
  assumes "sign_inputs E tx prevouts signing_keys = Inr tx'" "length signing_keys = length (tx_input tx)"
  shows "tx' = tx\<lparr>tx_input := tx_input tx'\<rparr> \<and> map ti_prev (tx_input tx') = map ti_prev (tx_input tx)
     \<and> (\<forall>i < length signing_keys. \<exists>digest. sighash E tx prevouts i = Inr digest
          \<and> ti_witness (tx_input tx' ! i) = [sign_schnorr E (signing_keys ! i) digest])"
proof -
  let ?f = "\<lambda>(i, key). rbind (map_err SighashError (sighash E tx prevouts i)) (\<lambda>digest. Inr [sign_schnorr E key digest])"
  let ?ks = "zip [0..<length signing_keys] signing_keys"
  obtain wits where w: "list_all2 (\<lambda>x y. ?f x = Inr y) ?ks wits"
    "tx' = tx\<lparr>tx_input := map (\<lambda>(txin, wit). txin\<lparr>ti_witness := wit\<rparr>) (zip (tx_input tx) wits)
        @ drop (length wits) (tx_input tx)\<rparr>"
    using assms(1) by (auto simp: sign_inputs_def rbind_Inr_iff rmap_Inr_iff)
  have len: "length wits = length (tx_input tx)" using list_all2_lengthD [OF w(1)] assms(2) by simp
  have ins: "tx_input tx' = map (\<lambda>(txin, wit). txin\<lparr>ti_witness := wit\<rparr>) (zip (tx_input tx) wits)"
    using w(2) len by simp
  have "map ti_prev (tx_input tx') = map ti_prev (map fst (zip (tx_input tx) wits))"
    unfolding ins by (simp add: split_beta)
  moreover have "\<exists>digest. sighash E tx prevouts i = Inr digest
      \<and> ti_witness (tx_input tx' ! i) = [sign_schnorr E (signing_keys ! i) digest]" if i: "i < length signing_keys" for i
    using list_all2_nthD [OF w(1), of i] i len assms(2) unfolding ins by (auto simp: rbind_Inr_iff)
  ultimately show ?thesis using w(2) len by simp
qed

text \<open>The stages of a build that succeeds.\<close>

lemma build_from_coins_stages:
  assumes "build_from_coins E secret recipient amount fr lfr tip change_address coins = Inr tx"
  obtains t p sel change keys derived outs where
    "tg_amount t = amount" "select_coins E coins t p lfr 100000 = Inr (sel, change)"
    "list_all2 (\<lambda>c k. add_tweak E secret (coin_tweak (snd c)) = Inr k) (shuffle_coins E sel) keys"
    "build_outputs E recipient amount change_address change derived = Inr outs"
    "sign_inputs E (unsigned_tx E tip (shuffle_coins E sel) (shuffle_outputs E outs))
        (map prevout (shuffle_coins E sel)) keys = Inr tx"
proof -
  let ?t = "\<lparr>tg_feerate = cs_feerate E fr, tg_weight = (case recipient of Address s \<Rightarrow> output_weight (length s)
      | SilentPayment _ \<Rightarrow> tr_output_weight E), tg_amount = amount\<rparr>"
  let ?p = "\<lparr>cp_min_value = p2tr_dust E secret, cp_feerate = cs_feerate E fr, cp_long_term = cs_feerate E lfr\<rparr>"
  obtain sel change keys derived outs where
    "select_coins E coins ?t ?p lfr 100000 = Inr (sel, change)"
    "list_all2 (\<lambda>c k. add_tweak E secret (coin_tweak (snd c)) = Inr k) (shuffle_coins E sel) keys"
    "build_outputs E recipient amount change_address change derived = Inr outs"
    "sign_inputs E (unsigned_tx E tip (shuffle_coins E sel) (shuffle_outputs E outs))
        (map prevout (shuffle_coins E sel)) keys = Inr tx"
    using assms unfolding build_from_coins_def Let_def by (auto simp: rbind_Inr_iff rmap_Inr_iff)
  then show thesis by (rule that [rotated]) simp
qed

lemma build_from_coins_sound:
  assumes "send_laws E ok" "distinct (map fst coins)"
    and "build_from_coins E secret recipient amount fr lfr tip change_address coins = Inr tx"
  shows "\<exists>used. map ti_prev (tx_input tx) = map fst used \<and> distinct (map fst used) \<and> set used \<subseteq> set coins
     \<and> (\<Sum>x \<leftarrow> tx_output tx. unat (to_value x)) \<le> (\<Sum>c \<leftarrow> used. unat (coin_value (snd c)))
     \<and> (\<exists>rs chg. mset (tx_output tx) = add_mset \<lparr>to_value = amount, to_script = rs\<rparr> (mset chg) \<and> length chg \<le> 1
          \<and> (\<forall>s. recipient = Address s \<longrightarrow> rs = s))
     \<and> (\<forall>i < length used. \<exists>key digest. add_tweak E secret (coin_tweak (snd (used ! i))) = Inr key
          \<and> sighash E (tx\<lparr>tx_input := map unsigned_input used\<rparr>) (map prevout used) i = Inr digest
          \<and> ti_witness (tx_input tx ! i) = [sign_schnorr E key digest])"
proof -
  obtain t p sel change keys derived outs where
    sel: "tg_amount t = amount" "select_coins E coins t p lfr 100000 = Inr (sel, change)"
    and keys: "list_all2 (\<lambda>c k. add_tweak E secret (coin_tweak (snd c)) = Inr k) (shuffle_coins E sel) keys"
    and outs: "build_outputs E recipient amount change_address change derived = Inr outs"
    and sign: "sign_inputs E (unsigned_tx E tip (shuffle_coins E sel) (shuffle_outputs E outs))
        (map prevout (shuffle_coins E sel)) keys = Inr tx"
    by (rule build_from_coins_stages [OF assms(3)])
  let ?used = "shuffle_coins E sel"
  let ?tx = "unsigned_tx E tip ?used (shuffle_outputs E outs)"
  note laws = send_lawsD [OF assms(1)] and picked = select_coins_sound [OF assms(1) sel(2) assms(2)]
  have perm: "mset ?used = mset sel" by (rule laws)
  then have set: "set ?used = set sel" by (metis set_mset_mset)
  have dist: "distinct (map fst ?used)"
    using picked(2) perm by (metis mset_eq_imp_distinct_iff mset_map)
  have total: "(\<Sum>c \<leftarrow> ?used. unat (coin_value (snd c))) = (\<Sum>c \<leftarrow> sel. unat (coin_value (snd c)))"
    by (rule sum_list_mset_eq [OF perm])
  have len: "length keys = length ?used" using list_all2_lengthD [OF keys] by simp
  have len': "length keys = length (tx_input (?tx))" using len by (simp add: unsigned_tx_def)
  have tx: "tx = ?tx\<lparr>tx_input := tx_input tx\<rparr>"
    and prevs: "map ti_prev (tx_input tx) = map ti_prev (tx_input (?tx))"
    and wits: "\<And>i. i < length keys \<Longrightarrow> \<exists>digest. sighash E (?tx) (map prevout ?used) i = Inr digest
          \<and> ti_witness (tx_input tx ! i) = [sign_schnorr E (keys ! i) digest]"
    using sign_inputs_sound [OF sign len'] by blast+
  have unsigned: "tx\<lparr>tx_input := map unsigned_input ?used\<rparr> = ?tx" by (subst tx) (simp add: unsigned_tx_def)
  have outputs: "tx_output tx = shuffle_outputs E outs" by (subst tx) (simp add: unsigned_tx_def)
  have "map ti_prev (tx_input tx) = map fst ?used" using prevs by (simp add: comp_def unsigned_input_def unsigned_tx_def)
  moreover have "(\<Sum>x \<leftarrow> tx_output tx. unat (to_value x)) \<le> (\<Sum>c \<leftarrow> ?used. unat (coin_value (snd c)))"
    using picked(3) build_outputs_sound [OF outs] sum_list_mset_eq [OF laws(8), of "\<lambda>x. unat (to_value x)" outs]
    sel(1) by (auto simp: total outputs)
  moreover have "\<exists>rs chg. mset (tx_output tx) = add_mset \<lparr>to_value = amount, to_script = rs\<rparr> (mset chg) \<and> length chg \<le> 1
          \<and> (\<forall>s. recipient = Address s \<longrightarrow> rs = s)"
    using build_outputs_sound [OF outs] laws(8) [of outs] unfolding outputs by (metis mset.simps(2))
  moreover have "\<exists>key digest. add_tweak E secret (coin_tweak (snd (?used ! i))) = Inr key
          \<and> sighash E (tx\<lparr>tx_input := map unsigned_input ?used\<rparr>) (map prevout ?used) i = Inr digest
          \<and> ti_witness (tx_input tx ! i) = [sign_schnorr E key digest]" if "i < length ?used" for i
    using wits [of i] list_all2_nthD [OF keys that] that len unfolding unsigned by auto
  ultimately show ?thesis using dist set picked(1) by blast
qed

lemma build_transaction_used:
  assumes "send_laws E ok" "enumerates order (dom (utxos w))"
    and "build_transaction E order recipient amount fr lfr w = Inr tx"
  shows "\<exists>used. map ti_prev (tx_input tx) = map fst used \<and> distinct (map fst used)
     \<and> (\<forall>(op, c) \<in> set used. utxos w op = Some c \<and> is_unspent c \<and> op \<notin> reserved w)
     \<and> (\<Sum>x \<leftarrow> tx_output tx. unat (to_value x)) \<le> (\<Sum>c \<leftarrow> used. unat (coin_value (snd c)))
     \<and> (\<exists>rs chg. mset (tx_output tx) = add_mset \<lparr>to_value = amount, to_script = rs\<rparr> (mset chg) \<and> length chg \<le> 1
          \<and> (\<forall>s. recipient = Address s \<longrightarrow> rs = s))
     \<and> (\<forall>i < length used. \<exists>key digest. add_tweak E (the (spend_secret w)) (coin_tweak (snd (used ! i))) = Inr key
          \<and> sighash E (tx\<lparr>tx_input := map unsigned_input used\<rparr>) (map prevout used) i = Inr digest
          \<and> ti_witness (tx_input tx ! i) = [sign_schnorr E key digest])"
proof -
  let ?coins = "filter (\<lambda>(op, c). is_unspent c \<and> op \<notin> reserved w) (map (\<lambda>op. (op, the (utxos w op))) order)"
  obtain secret change_address where secret: "spend_secret w = Some secret"
    and built: "build_from_coins E secret recipient amount fr lfr (scan_height w) change_address ?coins = Inr tx"
    using assms(3) by (auto simp: build_transaction_def rbind_Inr_iff ok_or_def split: option.splits)
  have ord: "distinct order" "set order = dom (utxos w)" using assms(2) by (auto simp: enumerates_def)
  have "map fst ?coins = filter (\<lambda>op. is_unspent (the (utxos w op)) \<and> op \<notin> reserved w) order"
    by (simp add: filter_map comp_def)
  then have "distinct (map fst ?coins)" using ord(1) by simp
  from build_from_coins_sound [OF assms(1) this built] obtain used where used:
    "map ti_prev (tx_input tx) = map fst used" "distinct (map fst used)" "set used \<subseteq> set ?coins"
    "(\<Sum>x \<leftarrow> tx_output tx. unat (to_value x)) \<le> (\<Sum>c \<leftarrow> used. unat (coin_value (snd c)))"
    and rest: "\<exists>rs chg. mset (tx_output tx) = add_mset \<lparr>to_value = amount, to_script = rs\<rparr> (mset chg) \<and> length chg \<le> 1
          \<and> (\<forall>s. recipient = Address s \<longrightarrow> rs = s)"
      "\<forall>i < length used. \<exists>key digest. add_tweak E secret (coin_tweak (snd (used ! i))) = Inr key
          \<and> sighash E (tx\<lparr>tx_input := map unsigned_input used\<rparr>) (map prevout used) i = Inr digest
          \<and> ti_witness (tx_input tx ! i) = [sign_schnorr E key digest]" by blast
  have "\<forall>(op, c) \<in> set used. utxos w op = Some c \<and> is_unspent c \<and> op \<notin> reserved w"
    using used(3) ord(2) by fastforce
  then show ?thesis using used(1,2,4) rest secret by (intro exI [of _ used]) (simp add: split_beta)
qed

section \<open>Properties\<close>


section \<open>Witnesses\<close>

text \<open>A selector that takes every candidate when they suffice, without change.\<close>

definition demo_send :: "(u64 list, unit, nat, nat, unit, unit) send_env" where
  "demo_send = \<lparr>cs_feerate = (\<lambda>_. ()), cs_new = (\<lambda>vs. vs), cs_run_bnb = (\<lambda>t f p n vs. (False, vs)), cs_sort = (\<lambda>vs. vs),
     cs_until = (\<lambda>t vs. if unat (tg_amount t) \<le> sum_list (map unat vs) then Inr vs else Inl 1),
     cs_drain = (\<lambda>t p vs. None), cs_selected = (\<lambda>vs. [0..<length vs]), tr_output_weight = 172,
     minimal_non_dust = (\<lambda>s. 330), p2tr_script = (\<lambda>x. demo_script (ucast x)), secret_xonly = (\<lambda>k. k),
     add_tweak = (\<lambda>k t. Inr (k + t)), partial_secret = (\<lambda>ks ops. Inr ()), key_material = (\<lambda>c. c),
     recipient_pubkeys = (\<lambda>kms ps. Inr (\<lambda>km. if km \<in> set kms then Some [of_nat km] else None)),
     lock_height = Some, sighash = (\<lambda>tx prevs i. Inr [of_nat i]), sign_schnorr = (\<lambda>k d. ucast k # d),
     change_code = (\<lambda>r. 1), parse_code = (\<lambda>s. if s = ''sp1x'' then Some 5 else None), code_network = (\<lambda>c. wallet_network.Regtest),
     parse_address = (\<lambda>s n. if s = ''bc1'' then Inr (Inr (demo_script 4)) else Inl ''bad''),
     shuffle_coins = rev, shuffle_outputs = rev\<rparr>"

lemma sum_all_indices: "(\<Sum>i \<leftarrow> [0..<length vs]. unat (vs ! i)) = sum_list (map unat (vs :: u64 list))"
proof -
  have "map (\<lambda>i. unat (vs ! i)) [0..<length vs] = map unat (map ((!) vs) [0..<length vs])" by simp
  then show ?thesis by (simp only: map_nth)
qed

lemma demo_send_laws: "send_laws demo_send (\<lambda>vs cs. cs = vs)"
  by (auto simp: send_laws_def funded_def demo_send_def sum_all_indices split: if_splits)

lemma demo_wallet_coins: "enumerates [demo_op] (dom (utxos demo_wallet))"
  by (simp add: enumerates_def demo_wallet_def)

lemma demo_builds:
  "\<exists>tx. build_transaction demo_send [demo_op] (Address (demo_script 4)) 900 250 250 demo_wallet = Inr tx"
  by (simp add: build_transaction_def build_from_coins_def Let_def demo_wallet_def demo_coin_def is_unspent_def
      select_coins_def derive_keys_def build_outputs_def sign_inputs_def unsigned_tx_def demo_send_def)


end
