(* ===== verification/Wallet_Service.thy ===== *)
theory Wallet_Service
  imports Sending
begin

text \<open>
  The wallet behind its IPC interface (src/ipc/wallet.rs) and the broadcast thread
  (src/bin/node.rs): queries, key import, sending to an address, raw broadcasts, and the
  release of coins after a failed broadcast.  The channel to the broadcast thread holds one
  transaction.  Floating-point fee rates are values of \<open>'q\<close> with the check and the
  conversion of the code as arguments.  The relation \<open>service_run\<close> composes the
  handlers with scanned and disconnected blocks in any order.
\<close>

record ('r, 'pk) service =
  sv_wallet :: "('r, 'pk) wallet"
  sv_queue :: "transaction list"
  sv_busy :: "transaction option"
  sv_open :: bool

datatype reply = Ok bool string | Failed string

definition channel_capacity :: nat where "channel_capacity = 1"

definition try_send :: "transaction \<Rightarrow> ('r, 'pk) service \<Rightarrow> string + ('r, 'pk) service" where
  "try_send tx sv =
     (if \<not> sv_open sv then Inl ''sending on a closed channel''
      else if length (sv_queue sv) \<ge> channel_capacity then Inl ''sending on a full channel''
      else Inr (sv\<lparr>sv_queue := sv_queue sv @ [tx]\<rparr>))"

section \<open>Queries\<close>

definition show_entry :: "(txid \<Rightarrow> string) \<Rightarrow> history_entry \<Rightarrow> string" where
  "show_entry show_txid e =
     (case e of
        Received op v h \<Rightarrow>
          ''recv '' @ show_txid (op_txid op) @ '':'' @ decimal (unat (op_vout op)) @ '' '' @ decimal (unat v)
            @ '' sats at '' @ decimal (unat h)
      | Spent op v h \<Rightarrow>
          ''spent '' @ show_txid (op_txid op) @ '':'' @ decimal (unat (op_vout op)) @ '' '' @ decimal (unat v)
            @ '' sats at '' @ decimal (unat h))"

fun join_lines :: "string list \<Rightarrow> string" where
  "join_lines [] = []"
| "join_lines [l] = l"
| "join_lines (l # ls) = l @ [char_of (10 :: nat)] @ join_lines ls"

definition get_balance :: "outpoint list \<Rightarrow> outpoint list \<Rightarrow> ('r, 'pk) service \<Rightarrow> (u64 \<times> u32 \<times> u32) option" where
  "get_balance order order' sv =
     map_option (\<lambda>b. (b, scan_height (sv_wallet sv), word_of_nat (utxo_count order' (sv_wallet sv))))
       (balance order (sv_wallet sv))"

definition get_history :: "(txid \<Rightarrow> string) \<Rightarrow> outpoint list \<Rightarrow> ('r, 'pk) service \<Rightarrow> string" where
  "get_history show_txid order sv = join_lines (map (show_entry show_txid) (history order (sv_wallet sv)))"

definition ipc_receive :: "('r, 'pk, 'td) silent_payments \<Rightarrow> ('r, 'pk) service \<Rightarrow> string + string" where
  "ipc_receive sp sv = ok_or ''no keys imported'' (receive_address sp (sv_wallet sv))"

section \<open>Commands\<close>

text \<open>\<open>parse_secret\<close> and \<open>parse_xonly\<close> are the \<open>from_slice\<close> constructors.\<close>

definition ipc_import_keys ::
    "('r, 'pk, 'td) silent_payments \<Rightarrow> (u8 list \<Rightarrow> string + secret_key) \<Rightarrow> (u8 list \<Rightarrow> string + xonly) \<Rightarrow> u8 list \<Rightarrow> u8 list
       \<Rightarrow> ('r, 'pk) service \<Rightarrow> reply \<times> ('r, 'pk) service" where
  "ipc_import_keys sp parse_secret parse_xonly scan_bytes spend_bytes sv =
     (case rbind (map_err (\<lambda>e. ''invalid scan key: '' @ e) (parse_secret scan_bytes)) (\<lambda>scan_key.
           rbind (map_err (\<lambda>e. ''invalid spend key: '' @ e) (parse_xonly spend_bytes)) (\<lambda>spend_xonly.
           map_err (\<lambda>e. ''invalid key pair: '' @ e) (import_keys sp scan_key spend_xonly (sv_wallet sv)))) of
        Inl e \<Rightarrow> (Failed e, sv)
      | Inr w \<Rightarrow> (Ok True ''keys imported'', sv\<lparr>sv_wallet := w\<rparr>))"

definition broadcast_raw_tx ::
    "(u8 list \<Rightarrow> string + transaction) \<Rightarrow> (transaction \<Rightarrow> string) \<Rightarrow> u8 list \<Rightarrow> ('r, 'pk) service
       \<Rightarrow> reply \<times> ('r, 'pk) service" where
  "broadcast_raw_tx decode compute_txid raw sv =
     (case decode raw of
        Inl e \<Rightarrow> (Failed (''invalid transaction: '' @ e), sv)
      | Inr tx \<Rightarrow>
          (case try_send tx sv of
             Inl e \<Rightarrow> (Failed (''broadcast unavailable: '' @ e), sv)
           | Inr sv' \<Rightarrow> (Ok True (compute_txid tx), sv')))"

definition tx_spends :: "transaction \<Rightarrow> outpoint list" where
  "tx_spends tx = map ti_prev (tx_input tx)"

definition show_send_error :: "send_error \<Rightarrow> string" where
  "show_send_error e =
     (case e of
        WatchOnly \<Rightarrow> ''wallet is watch-only: no spend secret to sign with''
      | NoSpendableCoins \<Rightarrow> ''no spendable coins''
      | DustAmount amount dust \<Rightarrow>
          ''amount '' @ decimal (unat amount) @ '' sats is below the dust limit of '' @ decimal (unat dust) @ '' sats''
      | InsufficientFunds needed available \<Rightarrow>
          ''insufficient funds: need '' @ decimal (unat needed) @ '' sats, have '' @ decimal (unat available) @ '' sats''
      | RecipientNetworkMismatch \<Rightarrow> ''recipient address is for a different network''
      | InvalidRecipient m \<Rightarrow> ''invalid recipient address: '' @ m
      | OutputDerivation \<Rightarrow> ''recipient output key was not derived''
      | SilentPaymentsError m \<Rightarrow> ''silent payments error: '' @ m
      | SecpError m \<Rightarrow> ''secp256k1 error: '' @ m
      | SighashError m \<Rightarrow> ''sighash error: '' @ m)"

definition send_to_address ::
    "('cs, 'f, 'code, 'km, 'ps, 'r) send_env \<Rightarrow> ('q \<Rightarrow> bool) \<Rightarrow> ('q \<Rightarrow> u64) \<Rightarrow> (transaction \<Rightarrow> string)
       \<Rightarrow> outpoint list \<Rightarrow> string \<Rightarrow> u64 \<Rightarrow> 'q \<Rightarrow> 'q \<Rightarrow> ('r, 'pk) service \<Rightarrow> reply \<times> ('r, 'pk) service" where
  "send_to_address E is_rate to_kwu compute_txid order address amount rate long_rate sv =
     (if \<not> is_rate rate then (Failed ''fee rate must be a non-negative number'', sv)
      else if \<not> is_rate long_rate then (Failed ''consolidate fee rate must be a non-negative number'', sv)
      else
        (case rbind (recipient_parse E address (wallet_net (sv_wallet sv))) (\<lambda>recipient.
              build_transaction E order recipient amount (to_kwu rate) (to_kwu long_rate) (sv_wallet sv)) of
           Inl e \<Rightarrow> (if is_user_error e then Ok False (show_send_error e) else Failed (show_send_error e), sv)
         | Inr tx \<Rightarrow>
             (case try_send tx sv of
                Inl e \<Rightarrow> (Failed (''broadcast unavailable: '' @ e), sv)
              | Inr sv' \<Rightarrow>
                  (Ok True (''Successfully broadcast transaction '' @ compute_txid tx),
                   sv'\<lparr>sv_wallet := reserve_coins (tx_spends tx) (sv_wallet sv')\<rparr>))))"

text \<open>
  The broadcast thread: it takes the next transaction from the channel, and when the broadcast
  is over (\<open>success\<close> is its result) releases the coins of a transaction that failed.
\<close>

definition broadcast_recv :: "('r, 'pk) service \<Rightarrow> ('r, 'pk) service" where
  "broadcast_recv sv =
     (case (sv_busy sv, sv_queue sv) of
        (None, tx # rest) \<Rightarrow> sv\<lparr>sv_queue := rest, sv_busy := Some tx\<rparr>
      | _ \<Rightarrow> sv)"

definition broadcast_done :: "bool \<Rightarrow> ('r, 'pk) service \<Rightarrow> ('r, 'pk) service" where
  "broadcast_done success sv =
     (case sv_busy sv of
        None \<Rightarrow> sv
      | Some tx \<Rightarrow>
          (if success then sv\<lparr>sv_busy := None\<rparr>
           else sv\<lparr>sv_busy := None, sv_wallet := release_coins (tx_spends tx) (sv_wallet sv)\<rparr>))"

section \<open>The handlers in any order\<close>

text \<open>
  \<open>F\<close> is a set of outpoints that are not the wallet's: raw transactions spend only such
  outpoints.  The second component lists the transactions that were sent and whose
  broadcast has not failed.
\<close>

inductive service_run ::
    "('cs, 'f, 'code, 'km, 'ps, 'r) send_env \<Rightarrow> ('r, 'pk, 'td) silent_payments \<Rightarrow> ('q \<Rightarrow> bool) \<Rightarrow> ('q \<Rightarrow> u64)
       \<Rightarrow> outpoint set \<Rightarrow> ('r, 'pk) service \<Rightarrow> transaction list \<Rightarrow> bool"
  for E sp is_rate to_kwu F where
  start: "dom (utxos w) \<inter> F = {} \<Longrightarrow> reserved w = {} \<Longrightarrow>
     service_run E sp is_rate to_kwu F \<lparr>sv_wallet = w, sv_queue = [], sv_busy = None, sv_open = True\<rparr> []"
| send: "service_run E sp is_rate to_kwu F sv live \<Longrightarrow> enumerates order (dom (utxos (sv_wallet sv))) \<Longrightarrow>
     send_to_address E is_rate to_kwu compute_txid order address amount rate long_rate sv
       = (Ok True msg, sv') \<Longrightarrow>
     service_run E sp is_rate to_kwu F sv' (live @ [last (sv_queue sv')])"
| raw: "service_run E sp is_rate to_kwu F sv live \<Longrightarrow> (\<And>tx. decode raw = Inr tx \<Longrightarrow> set (tx_spends tx) \<subseteq> F) \<Longrightarrow>
     broadcast_raw_tx decode compute_txid raw sv = (r, sv') \<Longrightarrow> service_run E sp is_rate to_kwu F sv' live"
| import_keys: "service_run E sp is_rate to_kwu F sv live \<Longrightarrow>
     ipc_import_keys sp parse_secret parse_xonly scan_bytes spend_bytes sv = (r, sv') \<Longrightarrow>
     service_run E sp is_rate to_kwu F sv' live"
| recv: "service_run E sp is_rate to_kwu F sv live \<Longrightarrow> service_run E sp is_rate to_kwu F (broadcast_recv sv) live"
| broadcast_ok: "service_run E sp is_rate to_kwu F sv live \<Longrightarrow>
     service_run E sp is_rate to_kwu F (broadcast_done True sv) live"
| broadcast_failed: "service_run E sp is_rate to_kwu F sv live \<Longrightarrow> sv_busy sv = Some tx \<Longrightarrow>
     service_run E sp is_rate to_kwu F (broadcast_done False sv) (filter (\<lambda>t. t \<noteq> tx) live)"
| scan: "service_run E sp is_rate to_kwu F sv live \<Longrightarrow>
     scan_block sp block spents height (sv_wallet sv) = Some (n, w') \<Longrightarrow>
     dom (utxos w') \<inter> F = {} \<Longrightarrow> service_run E sp is_rate to_kwu F (sv\<lparr>sv_wallet := w'\<rparr>) live"
| disconnect: "service_run E sp is_rate to_kwu F sv live \<Longrightarrow>
     service_run E sp is_rate to_kwu F (sv\<lparr>sv_wallet := process_disconnect block (sv_wallet sv)\<rparr>) live"

section \<open>No coin is spent twice\<close>

lemma release_coins_eq: "release_coins ops w = w\<lparr>reserved := reserved w - set ops\<rparr>"
proof (induction ops arbitrary: w)
  case (Cons x xs)
  have "reserved w - {x} - set xs = reserved w - set (x # xs)" by auto
  then show ?case using Cons by simp
qed simp

text \<open>
  What every handler keeps.  \<open>raw\<close> transactions spend nothing of the wallet; the others in
  the channel or with the broadcast thread are live and occur once.
\<close>

definition in_channel :: "('r, 'pk) service \<Rightarrow> transaction list" where
  "in_channel sv = (case sv_busy sv of Some tx \<Rightarrow> [tx] | None \<Rightarrow> []) @ sv_queue sv"

definition raw_tx :: "outpoint set \<Rightarrow> transaction \<Rightarrow> bool" where
  "raw_tx F tx \<longleftrightarrow> set (tx_spends tx) \<subseteq> F"

definition service_inv :: "outpoint set \<Rightarrow> ('r, 'pk) service \<Rightarrow> transaction list \<Rightarrow> bool" where
  "service_inv F sv live \<longleftrightarrow>
     dom (utxos (sv_wallet sv)) \<inter> F = {}
     \<and> distinct (concat (map tx_spends live))
     \<and> (\<forall>t \<in> set live. set (tx_spends t) \<subseteq> reserved (sv_wallet sv) \<and> set (tx_spends t) \<inter> F = {})
     \<and> (\<forall>t \<in> set (in_channel sv). t \<in> set live \<or> raw_tx F t)
     \<and> distinct (filter (\<lambda>t. \<not> raw_tx F t) (in_channel sv))"

lemma send_to_address_cases:
  assumes "send_to_address E is_rate to_kwu compute_txid order address amount rate long_rate sv = (reply, sv')"
  obtains "sv' = sv" "\<forall>msg. reply \<noteq> Ok True msg"
  | recipient tx where "recipient_parse E address (wallet_net (sv_wallet sv)) = Inr recipient"
      "build_transaction E order recipient amount (to_kwu rate) (to_kwu long_rate) (sv_wallet sv) = Inr tx"
      "sv' = sv\<lparr>sv_queue := sv_queue sv @ [tx], sv_wallet := reserve_coins (tx_spends tx) (sv_wallet sv)\<rparr>"
      "reply = Ok True (''Successfully broadcast transaction '' @ compute_txid tx)"
proof -
  let ?b = "rbind (recipient_parse E address (wallet_net (sv_wallet sv))) (\<lambda>recipient.
      build_transaction E order recipient amount (to_kwu rate) (to_kwu long_rate) (sv_wallet sv))"
  consider "\<not> is_rate rate \<or> \<not> is_rate long_rate" | e where "is_rate rate" "is_rate long_rate" "?b = Inl e"
    | tx e where "is_rate rate" "is_rate long_rate" "?b = Inr tx" "try_send tx sv = Inl e"
    | tx sv1 where "is_rate rate" "is_rate long_rate" "?b = Inr tx" "try_send tx sv = Inr sv1"
    by (metis sum.exhaust)
  then show thesis
  proof cases
    case 4
    then have "sv1 = sv\<lparr>sv_queue := sv_queue sv @ [tx]\<rparr>" by (simp add: try_send_def split: if_splits)
    moreover obtain recipient where "recipient_parse E address (wallet_net (sv_wallet sv)) = Inr recipient"
      "build_transaction E order recipient amount (to_kwu rate) (to_kwu long_rate) (sv_wallet sv) = Inr tx"
      using 4(3) unfolding rbind_Inr_iff by blast
    ultimately show ?thesis using that(2) assms 4 by (simp add: send_to_address_def)
  qed (rule that(1); use assms in \<open>auto simp: send_to_address_def split: if_splits\<close>)+
qed

lemma build_spends:
  assumes "send_laws E ok" "enumerates order (dom (utxos w))"
    and "build_transaction E order recipient amount fr lfr w = Inr tx"
  shows "distinct (tx_spends tx) \<and> set (tx_spends tx) \<subseteq> dom (utxos w) - reserved w"
proof -
  obtain used where "map ti_prev (tx_input tx) = map fst used" "distinct (map fst used)"
    "\<forall>(op, c) \<in> set used. utxos w op = Some c \<and> is_unspent c \<and> op \<notin> reserved w"
    using build_transaction_used [OF assms] by blast
  then show ?thesis by (auto simp: tx_spends_def)
qed

lemma filter_distinct_concat: "distinct (concat (map f xs)) \<Longrightarrow> distinct (concat (map f (filter P xs)))"
  by (induction xs) auto

lemma distinct_concat_disjoint:
  "distinct (concat (map f xs)) \<Longrightarrow> t \<in> set xs \<Longrightarrow> u \<in> set xs \<Longrightarrow> t \<noteq> u \<Longrightarrow> set (f t) \<inter> set (f u) = {}"
  by (induction xs) auto

lemma service_inv_send:
  assumes "service_inv F sv live" "distinct (tx_spends tx)"
    "set (tx_spends tx) \<subseteq> dom (utxos (sv_wallet sv)) - reserved (sv_wallet sv)"
  shows "service_inv F (sv\<lparr>sv_queue := sv_queue sv @ [tx], sv_wallet := reserve_coins (tx_spends tx) (sv_wallet sv)\<rparr>) (live @ [tx])"
proof -
  let ?sv = "sv\<lparr>sv_queue := sv_queue sv @ [tx], sv_wallet := reserve_coins (tx_spends tx) (sv_wallet sv)\<rparr>"
  have chan: "in_channel ?sv = in_channel sv @ [tx]" by (simp add: in_channel_def)
  have fresh: "tx \<notin> set (filter (\<lambda>t. \<not> raw_tx F t) (in_channel sv))"
  proof
    assume "tx \<in> set (filter (\<lambda>t. \<not> raw_tx F t) (in_channel sv))"
    then have "tx \<in> set live" "\<not> raw_tx F tx" using assms(1) by (auto simp: service_inv_def)
    then show False using assms(1,3) by (auto simp: service_inv_def raw_tx_def)
  qed
  show ?thesis
    using assms fresh unfolding service_inv_def chan
    by (auto simp: reserve_coins_def)
qed

lemma service_inv_raw:
  assumes "service_inv F sv live" "raw_tx F tx"
  shows "service_inv F (sv\<lparr>sv_queue := sv_queue sv @ [tx]\<rparr>) live"
proof -
  have "in_channel (sv\<lparr>sv_queue := sv_queue sv @ [tx]\<rparr>) = in_channel sv @ [tx]" by (simp add: in_channel_def)
  then show ?thesis using assms unfolding service_inv_def by simp
qed

lemma service_inv_wallet:
  assumes "service_inv F sv live" "dom (utxos w) \<inter> F = {}" "reserved w = reserved (sv_wallet sv)"
  shows "service_inv F (sv\<lparr>sv_wallet := w\<rparr>) live"
proof -
  have "in_channel (sv\<lparr>sv_wallet := w\<rparr>) = in_channel sv" by (simp add: in_channel_def)
  then show ?thesis using assms by (simp add: service_inv_def)
qed

lemma service_inv_failed:
  assumes "service_inv F sv live" "sv_busy sv = Some tx"
  shows "service_inv F (broadcast_done False sv) (filter (\<lambda>t. t \<noteq> tx) live)"
proof -
  let ?sv = "broadcast_done False sv"
  have chan: "in_channel sv = tx # in_channel ?sv" using assms(2) by (simp add: in_channel_def broadcast_done_def)
  have wal: "sv_wallet ?sv = (sv_wallet sv)\<lparr>reserved := reserved (sv_wallet sv) - set (tx_spends tx)\<rparr>"
    using assms(2) by (simp add: broadcast_done_def release_coins_eq)
  have "set (tx_spends t) \<inter> set (tx_spends tx) = {}" if t: "t \<in> set live" "t \<noteq> tx" for t
  proof (cases "tx \<in> set live")
    case True
    then show ?thesis using assms(1) t by (intro distinct_concat_disjoint [of _ live]) (simp_all add: service_inv_def)
  next
    case False
    then have "raw_tx F tx" using assms(1) chan by (auto simp: service_inv_def)
    moreover have "set (tx_spends t) \<inter> F = {}" using assms(1) t(1) by (simp add: service_inv_def)
    ultimately show ?thesis unfolding raw_tx_def by blast
  qed
  then show ?thesis
    using assms(1) filter_distinct_concat [of tx_spends live "\<lambda>t. t \<noteq> tx"]
    unfolding service_inv_def wal chan by (auto split: if_splits)
qed

lemma service_run_inv:
  assumes "service_run E sp is_rate to_kwu F sv live" "send_laws E ok"
  shows "service_inv F sv live"
  using assms(1)
proof (induction rule: service_run.induct)
  case (start w)
  then show ?case by (simp add: service_inv_def in_channel_def)
next
  case (send sv live order compute_txid address amount rate long_rate msg sv')
  from send.hyps(3) obtain recipient tx where
    "build_transaction E order recipient amount (to_kwu rate) (to_kwu long_rate) (sv_wallet sv) = Inr tx"
    "sv' = sv\<lparr>sv_queue := sv_queue sv @ [tx], sv_wallet := reserve_coins (tx_spends tx) (sv_wallet sv)\<rparr>"
    by (cases rule: send_to_address_cases) auto
  then show ?case
    using service_inv_send [OF send.IH] build_spends [OF assms(2) send.hyps(2)] by simp
next
  case (raw sv live decode raw compute_txid r sv')
  then have "sv' = sv \<or> (\<exists>tx. raw_tx F tx \<and> sv' = sv\<lparr>sv_queue := sv_queue sv @ [tx]\<rparr>)"
    by (auto simp: broadcast_raw_tx_def try_send_def raw_tx_def split: sum.splits if_splits)
  then show ?case using raw.IH service_inv_raw by blast
next
  case (import_keys sv live parse_secret parse_xonly scan_bytes spend_bytes r sv')
  then have "\<exists>w. sv' = sv\<lparr>sv_wallet := w\<rparr> \<and> utxos w = utxos (sv_wallet sv) \<and> reserved w = reserved (sv_wallet sv)"
    by (auto simp: ipc_import_keys_def import_keys_def Let_def rbind_Inr_iff split: sum.splits
        intro: exI [of _ "sv_wallet sv"])
  moreover have "dom (utxos (sv_wallet sv)) \<inter> F = {}" using import_keys.IH by (simp add: service_inv_def)
  ultimately show ?case using service_inv_wallet [OF import_keys.IH] by auto
next
  case (recv sv live)
  have "in_channel (broadcast_recv sv) = in_channel sv" "sv_wallet (broadcast_recv sv) = sv_wallet sv"
    by (auto simp: in_channel_def broadcast_recv_def split: option.splits list.splits)
  then show ?case using recv.IH by (simp add: service_inv_def)
next
  case (broadcast_ok sv live)
  have "sv_wallet (broadcast_done True sv) = sv_wallet sv"
    and "\<exists>xs. in_channel sv = xs @ in_channel (broadcast_done True sv)"
    by (auto simp: in_channel_def broadcast_done_def split: option.split)
  then show ?case using broadcast_ok.IH by (auto simp: service_inv_def)
next
  case (broadcast_failed sv live tx)
  then show ?case by (intro service_inv_failed)
next
  case (scan sv live block spents height n w')
  then have "reserved w' = reserved (sv_wallet sv)"
    by (auto simp: scan_block_def split: option.splits)
  then show ?case using service_inv_wallet [OF scan.IH] scan.hyps by blast
next
  case (disconnect sv live block)
  have "dom (utxos (process_disconnect block (sv_wallet sv))) \<subseteq> dom (utxos (sv_wallet sv))"
    by (auto simp: process_disconnect_def forget_block_def Let_def split: if_splits)
  moreover have "dom (utxos (sv_wallet sv)) \<inter> F = {}" using disconnect.IH by (simp add: service_inv_def)
  ultimately show ?case
    by (intro service_inv_wallet [OF disconnect.IH]) (auto simp: process_disconnect_def)
qed

section \<open>Properties\<close>


text \<open>
  C20: Sending is all or nothing.  Either the reply says so, one new transaction is in the
  channel, and exactly its inputs, which were unreserved coins of the wallet, have become
  reserved; or the reply is a refusal or a failure and nothing has changed, also when the
  channel is full.
\<close>

theorem send_to_address_atomic:
  assumes "send_laws E ok" "enumerates order (dom (utxos (sv_wallet sv)))"
    and "send_to_address E is_rate to_kwu compute_txid order address amount rate long_rate sv = (reply, sv')"
  shows "(\<exists>tx msg. reply = Ok True msg \<and> sv_queue sv' = sv_queue sv @ [tx] \<and> distinct (tx_spends tx)
       \<and> set (tx_spends tx) \<subseteq> dom (utxos (sv_wallet sv)) - reserved (sv_wallet sv)
       \<and> reserved (sv_wallet sv') = reserved (sv_wallet sv) \<union> set (tx_spends tx)
       \<and> utxos (sv_wallet sv') = utxos (sv_wallet sv))
     \<or> (sv' = sv \<and> (\<forall>msg. reply \<noteq> Ok True msg))"
  using assms(3)
proof (cases rule: send_to_address_cases)
  case 1
  then show ?thesis by blast
next
  case (2 recipient tx)
  then show ?thesis
    using build_spends [OF assms(1,2) 2(2)] by (auto simp: reserve_coins_def)
qed

section \<open>Witnesses\<close>

definition demo_service :: "(unit, xonly) service" where
  "demo_service = \<lparr>sv_wallet = demo_wallet, sv_queue = [], sv_busy = None, sv_open = True\<rparr>"

lemma demo_order: "enumerates [demo_op] (dom (utxos (sv_wallet demo_service)))"
  using demo_wallet_coins by (simp add: demo_service_def)

lemma demo_sends:
  "\<exists>msg sv'. send_to_address demo_send (\<lambda>q :: nat. True) (\<lambda>q. 250) (\<lambda>tx. []) [demo_op] ''bc1'' 900 1 1 demo_service
     = (Ok True msg, sv')"
proof -
  obtain tx where "build_transaction demo_send [demo_op] (Address (demo_script 4)) 900 250 250 demo_wallet = Inr tx"
    using demo_builds by blast
  moreover have "recipient_parse demo_send ''bc1'' net = Inr (Address (demo_script 4))" for net
    by (simp add: recipient_parse_def demo_send_def)
  ultimately show ?thesis
    by (simp add: send_to_address_def demo_service_def try_send_def channel_capacity_def)
qed


theorem send_to_address_atomic_witness:
  "\<exists>reply sv' tx. send_to_address demo_send (\<lambda>q :: nat. True) (\<lambda>q. 250) (\<lambda>tx. []) [demo_op] ''bc1'' 900 1 1 demo_service
       = (reply, sv') \<and> sv_queue sv' = [tx] \<and> reserved (sv_wallet sv') = set (tx_spends tx)"
proof -
  obtain msg sv' where sent: "send_to_address demo_send (\<lambda>q :: nat. True) (\<lambda>q. 250) (\<lambda>tx. []) [demo_op] ''bc1''
      900 1 1 demo_service = (Ok True msg, sv')" using demo_sends by blast
  have "sv_queue demo_service = []" "reserved (sv_wallet demo_service) = {}"
    by (simp_all add: demo_service_def demo_wallet_def)
  with send_to_address_atomic [OF demo_send_laws demo_order sent] sent show ?thesis by auto
qed

end
