(* ===== verification/Wallet_Store.thy ===== *)
theory Wallet_Store
  imports Wallet File_System
begin

text \<open>
  The wallet file (wallet/src/silentpayments/wallet_store.rs): a header with magic,
  version, network, scan height and coin count, then one record of 192 bytes per coin.  A
  record is written into a zeroed buffer field by field, as the source does.
  \<open>scalar_ok\<close> is the range check of \<open>Scalar::from_be_bytes\<close>.
\<close>

datatype wallet_persistence_error =
    Io io_error
  | BadMagic
  | WrongVersion u8
  | UnknownNetwork u8
  | UnknownSpentFlag u8
  | UnknownLabelTag u8
  | InvalidScalar
  | NonP2trScript nat
  | TruncatedFile

datatype wallet_store_error =
    Persistence wallet_persistence_error
  | NetworkMismatch wallet_network wallet_network

section \<open>Fixed-size buffers\<close>

text \<open>\<open>buf[off..off + n].copy_from_slice(xs)\<close> and \<open>buf[off..off + n]\<close>.\<close>

definition blit :: "nat \<Rightarrow> 'a list \<Rightarrow> 'a list \<Rightarrow> 'a list" where
  "blit off xs buf = take off buf @ xs @ drop (off + length xs) buf"

definition sub_slice :: "nat \<Rightarrow> nat \<Rightarrow> 'a list \<Rightarrow> 'a list" where
  "sub_slice off n buf = take n (drop off buf)"

lemma length_blit [simp]: "off + length xs \<le> length buf \<Longrightarrow> length (blit off xs buf) = length buf"
  by (simp add: blit_def)

lemma sub_slice_blit_same [simp]: "off \<le> length buf \<Longrightarrow> n = length xs \<Longrightarrow> sub_slice off n (blit off xs buf) = xs"
  by (simp add: blit_def sub_slice_def)

lemma sub_slice_blit_before:
  assumes "k + n \<le> off" "off \<le> length buf"
  shows "sub_slice k n (blit off xs buf) = sub_slice k n buf"
proof -
  have "n \<le> off - k" using assms(1) by simp
  then show ?thesis using assms by (simp add: blit_def sub_slice_def drop_take min.absorb1)
qed

lemma sub_slice_blit_after:
  assumes "off + length xs \<le> k" "off + length xs \<le> length buf"
  shows "sub_slice k n (blit off xs buf) = sub_slice k n buf"
proof -
  have "drop k (blit off xs buf) = drop (k - (off + length xs)) (drop (off + length xs) buf)"
    using assms by (simp add: blit_def)
  also have "\<dots> = drop k buf" using assms(1) by simp
  finally show ?thesis by (simp add: sub_slice_def)
qed

lemma nth_blit:
  "off + length xs \<le> length buf \<Longrightarrow> k < length buf \<Longrightarrow>
     blit off xs buf ! k = (if off \<le> k \<and> k < off + length xs then xs ! (k - off) else buf ! k)"
  by (auto simp: blit_def nth_append min_def)

lemma sub_slice_append_left: "off + n \<le> length xs \<Longrightarrow> sub_slice off n (xs @ ys) = sub_slice off n xs"
  by (simp add: sub_slice_def)

lemma sub_slice_append_right: "length xs \<le> off \<Longrightarrow> sub_slice off n (xs @ ys) = sub_slice (off - length xs) n ys"
  by (simp add: sub_slice_def)

section \<open>Records\<close>

definition wallet_magic :: "u8 list" where "wallet_magic = [0x53, 0x50, 0x57, 0x46]"
definition wallet_version :: u8 where "wallet_version = 1"
definition record_len :: nat where "record_len = 192"
definition script_len :: nat where "script_len = 34"

definition encode_network :: "wallet_network \<Rightarrow> u8" where
  "encode_network n = (case n of Mainnet \<Rightarrow> 0 | Testnet \<Rightarrow> 1 | Regtest \<Rightarrow> 2)"

definition decode_network :: "u8 \<Rightarrow> wallet_persistence_error + wallet_network" where
  "decode_network b =
     (if b = 0 then Inr Mainnet else if b = 1 then Inr Testnet else if b = 2 then Inr Regtest
      else Inl (UnknownNetwork b))"

definition encode_record :: "outpoint \<Rightarrow> coin \<Rightarrow> wallet_persistence_error + u8 list" where
  "encode_record op c =
     (if length (coin_script c) \<noteq> script_len then Inl (NonP2trScript (length (coin_script c)))
      else
       (let buf = replicate record_len 0;
            buf = blit 0 [if coin_spent_by c \<noteq> None then 1 else 0] buf;
            buf = blit 1 (to_le_bytes (op_txid op)) buf;
            buf = blit 33 (to_le_bytes (op_vout op)) buf;
            buf = blit 37 (to_le_bytes (coin_value c)) buf;
            buf = blit 45 (coin_script c) buf;
            buf = blit 79 (to_be_bytes (coin_tweak c)) buf;
            buf = (case coin_label c of
                     Some l \<Rightarrow> blit 112 (to_be_bytes l) (blit 111 [1] buf)
                   | None \<Rightarrow> blit 111 [0] buf);
            buf = blit 144 (to_le_bytes (coin_height c)) buf;
            buf = (case coin_spent_by c of
                     Some s \<Rightarrow> blit 180 (to_le_bytes (sb_height s)) (blit 148 (to_le_bytes (sb_txid s)) buf)
                   | None \<Rightarrow> buf)
        in Inr buf))"

definition scalar_from_be :: "(scalar \<Rightarrow> bool) \<Rightarrow> u8 list \<Rightarrow> wallet_persistence_error + scalar" where
  "scalar_from_be scalar_ok bs =
     (if scalar_ok (from_be_bytes bs) then Inr (from_be_bytes bs) else Inl InvalidScalar)"

definition decode_record ::
    "(scalar \<Rightarrow> bool) \<Rightarrow> u8 list \<Rightarrow> wallet_persistence_error + (outpoint \<times> coin)" where
  "decode_record scalar_ok buf =
     (let spent_flag = buf ! 0 in
      rbind (check (spent_flag = 0 \<or> spent_flag = 1) (UnknownSpentFlag spent_flag)) (\<lambda>_.
      let op = \<lparr>op_txid = from_le_bytes (sub_slice 1 32 buf), op_vout = from_le_bytes (sub_slice 33 4 buf)\<rparr>;
          value = from_le_bytes (sub_slice 37 8 buf);
          script = sub_slice 45 script_len buf in
      rbind (scalar_from_be scalar_ok (sub_slice 79 32 buf)) (\<lambda>tweak.
      rbind (if buf ! 111 = 0 then Inr None
             else if buf ! 111 = 1 then rbind (scalar_from_be scalar_ok (sub_slice 112 32 buf)) (\<lambda>l. Inr (Some l))
             else Inl (UnknownLabelTag (buf ! 111))) (\<lambda>label.
      let height = from_le_bytes (sub_slice 144 4 buf);
          spent = (if spent_flag = 1
                   then Some \<lparr>sb_txid = from_le_bytes (sub_slice 148 32 buf), sb_height = from_le_bytes (sub_slice 180 4 buf)\<rparr>
                   else None) in
      Inr (op, \<lparr>coin_value = value, coin_script = script, coin_tweak = tweak, coin_label = label,
                coin_height = height, coin_spent_by = spent\<rparr>)))))"

section \<open>Files\<close>

fun encode_records :: "(outpoint \<rightharpoonup> coin) \<Rightarrow> outpoint list \<Rightarrow> wallet_persistence_error + u8 list" where
  "encode_records us [] = Inr []"
| "encode_records us (op # ops) =
     rbind (encode_record op (the (us op))) (\<lambda>r. rbind (encode_records us ops) (\<lambda>rs. Inr (r @ rs)))"

definition wallet_header :: "wallet_network \<Rightarrow> u32 \<Rightarrow> u32 \<Rightarrow> u8 list" where
  "wallet_header net height coin_count =
     wallet_magic @ [wallet_version, encode_network net] @ to_le_bytes height @ to_le_bytes coin_count"

text \<open>\<open>None\<close> is the panic on more than \<open>u32::MAX\<close> coins.\<close>

definition wallet_to_bytes ::
    "outpoint list \<Rightarrow> ('r, 'pk) wallet \<Rightarrow> (wallet_persistence_error + u8 list) option" where
  "wallet_to_bytes order w =
     (if length order < 2 ^ 32 then
        Some (rbind (encode_records (utxos w) order) (\<lambda>rs.
          Inr (wallet_header (wallet_net w) (scan_height w) (word_of_nat (length order)) @ rs)))
      else None)"

fun decode_records ::
    "(scalar \<Rightarrow> bool) \<Rightarrow> nat \<Rightarrow> u8 list \<Rightarrow> (outpoint \<rightharpoonup> coin) \<Rightarrow> wallet_persistence_error + (outpoint \<rightharpoonup> coin)" where
  "decode_records scalar_ok 0 bytes us = Inr us"
| "decode_records scalar_ok (Suc n) bytes us =
     rbind (decode_record scalar_ok (sub_slice 0 record_len bytes)) (\<lambda>(op, c).
       decode_records scalar_ok n (drop record_len bytes) (us(op \<mapsto> c)))"

definition wallet_from_bytes ::
    "(scalar \<Rightarrow> bool) \<Rightarrow> u8 list \<Rightarrow> wallet_persistence_error + ('r, 'pk) wallet" where
  "wallet_from_bytes scalar_ok bytes =
     rbind (check (14 \<le> length bytes) TruncatedFile) (\<lambda>_.
     rbind (check (sub_slice 0 4 bytes = wallet_magic) BadMagic) (\<lambda>_.
     rbind (check (bytes ! 4 = wallet_version) (WrongVersion (bytes ! 4))) (\<lambda>_.
     rbind (decode_network (bytes ! 5)) (\<lambda>net.
     let height = from_le_bytes (sub_slice 6 4 bytes);
         coin_count = unat (from_le_bytes (sub_slice 10 4 bytes) :: u32) in
     rbind (check (length bytes = 14 + coin_count * record_len) TruncatedFile) (\<lambda>_.
     rbind (decode_records scalar_ok coin_count (drop 14 bytes) Map.empty) (\<lambda>us.
     Inr (from_parts height net us)))))))"

definition save_atomic ::
    "save_faults \<Rightarrow> path \<Rightarrow> u8 list \<Rightarrow> file_system \<Rightarrow> (wallet_persistence_error + unit) \<times> file_system" where
  "save_atomic fl p bytes fs = map_prod (map_err Io) id (write_then_rename fl (p @ ''.tmp'') p bytes fs)"

definition wallet_save ::
    "save_faults \<Rightarrow> path \<Rightarrow> outpoint list \<Rightarrow> ('r, 'pk) wallet \<Rightarrow> file_system
       \<Rightarrow> ((wallet_persistence_error + unit) \<times> file_system) option" where
  "wallet_save fl p order w fs =
     map_option (\<lambda>enc. case enc of Inl e \<Rightarrow> (Inl e, fs) | Inr bytes \<Rightarrow> save_atomic fl p bytes fs)
       (wallet_to_bytes order w)"

definition wallet_load ::
    "(scalar \<Rightarrow> bool) \<Rightarrow> path \<Rightarrow> file_system \<Rightarrow> wallet_persistence_error + ('r, 'pk) wallet" where
  "wallet_load scalar_ok p fs = rbind (map_err Io (fs_read p fs)) (wallet_from_bytes scalar_ok)"

record wallet_store =
  ws_path :: path
  ws_network :: wallet_network

definition store_exists :: "wallet_store \<Rightarrow> file_system \<Rightarrow> bool" where
  "store_exists st fs \<longleftrightarrow> fs (ws_path st) \<noteq> None"

definition store_save ::
    "save_faults \<Rightarrow> wallet_store \<Rightarrow> outpoint list \<Rightarrow> ('r, 'pk) wallet \<Rightarrow> file_system
       \<Rightarrow> ((wallet_persistence_error + unit) \<times> file_system) option" where
  "store_save fl st order w fs = wallet_save fl (ws_path st) order w fs"

definition store_load ::
    "(scalar \<Rightarrow> bool) \<Rightarrow> wallet_store \<Rightarrow> file_system \<Rightarrow> wallet_store_error + ('r, 'pk) wallet" where
  "store_load scalar_ok st fs =
     rbind (map_err Persistence (wallet_load scalar_ok (ws_path st) fs)) (\<lambda>w.
       if wallet_net w \<noteq> ws_network st then Inl (NetworkMismatch (wallet_net w) (ws_network st)) else Inr w)"

section \<open>Round trip of a record\<close>

definition storable :: "(scalar \<Rightarrow> bool) \<Rightarrow> coin \<Rightarrow> bool" where
  "storable scalar_ok c \<longleftrightarrow>
     length (coin_script c) = script_len \<and> scalar_ok (coin_tweak c) \<and> (\<forall>l. coin_label c = Some l \<longrightarrow> scalar_ok l)"

lemmas record_fields =
  sub_slice_blit_before sub_slice_blit_after nth_blit script_len_def scalar_from_be_def

text \<open>The zeroed buffer, so that rewriting does not spell it out.\<close>

definition zeroed :: "u8 list" where "zeroed = replicate record_len 0"

lemma length_zeroed [simp]: "length zeroed = 192"
  by (simp add: zeroed_def record_len_def)

lemmas encode_record_zeroed = encode_record_def [folded zeroed_def]

lemma encode_record_ok:
  assumes "length (coin_script c) = script_len"
  shows "\<exists>buf. encode_record op c = Inr buf \<and> length buf = record_len"
  using assms
  by (cases "coin_label c"; cases "coin_spent_by c")
    (simp_all add: encode_record_zeroed Let_def script_len_def record_len_def)

lemma decode_encode_record:
  assumes "storable scalar_ok c" "encode_record op c = Inr buf"
  shows "decode_record scalar_ok buf = Inr (op, c)"
proof -
  have len: "length (coin_script c) = 34" and ok: "scalar_ok (coin_tweak c)"
    and lab: "\<And>l. coin_label c = Some l \<Longrightarrow> scalar_ok l"
    using assms(1) by (auto simp: storable_def script_len_def)
  have buf: "buf = projr (encode_record op c)" using assms(2) by simp
  show ?thesis
    unfolding buf using len ok lab
    by (cases "coin_label c"; cases "coin_spent_by c"; cases c)
      (simp_all add: encode_record_zeroed decode_record_def Let_def record_fields)
qed

lemma encode_records_ok:
  assumes "\<forall>op \<in> set ops. length (coin_script (the (us op))) = script_len"
  shows "\<exists>rs. encode_records us ops = Inr rs \<and> length rs = length ops * record_len"
  using assms
proof (induction ops)
  case (Cons op ops)
  then obtain rs where "encode_records us ops = Inr rs" "length rs = length ops * record_len" by auto
  moreover obtain buf where "encode_record op (the (us op)) = Inr buf" "length buf = record_len"
    using encode_record_ok [of "the (us op)" op] Cons.prems by auto
  ultimately show ?case by simp
qed simp

lemma decode_encode_records:
  assumes "\<forall>op \<in> set ops. storable scalar_ok (the (us op))" "encode_records us ops = Inr rs" "distinct ops"
  shows "decode_records scalar_ok (length ops) rs base = Inr (\<lambda>op. if op \<in> set ops then Some (the (us op)) else base op)"
  using assms
proof (induction ops arbitrary: rs base)
  case Nil
  then show ?case by simp
next
  case (Cons op ops)
  obtain r rs' where enc: "encode_record op (the (us op)) = Inr r" "encode_records us ops = Inr rs'" "rs = r @ rs'"
    using Cons.prems(2) by (auto simp: rbind_Inr_iff)
  have "length r = record_len"
    using encode_record_ok [of "the (us op)" op] enc(1) Cons.prems(1) by (auto simp: storable_def)
  moreover have "decode_record scalar_ok r = Inr (op, the (us op))"
    using decode_encode_record enc(1) Cons.prems(1) by auto
  moreover have "decode_records scalar_ok (length ops) rs' (base(op \<mapsto> the (us op)))
      = Inr (\<lambda>x. if x \<in> set ops then Some (the (us x)) else (base(op \<mapsto> the (us op))) x)"
    using Cons.prems(1,3) by (intro Cons.IH [OF _ enc(2)]) simp_all
  then have "decode_records scalar_ok (length ops) rs' (base(op \<mapsto> the (us op)))
      = Inr (\<lambda>x. if x \<in> set (op # ops) then Some (the (us x)) else base x)"
    by (auto simp: fun_eq_iff)
  ultimately show ?case using enc(3) by (simp add: sub_slice_def)
qed

section \<open>Round trip of a file\<close>

lemma length_wallet_header [simp]: "length (wallet_header net height n) = 14"
  by (simp add: wallet_header_def wallet_magic_def)

lemma wallet_header_fields:
  "sub_slice 0 4 (wallet_header net height n @ rs) = wallet_magic"
  "(wallet_header net height n @ rs) ! 4 = wallet_version"
  "(wallet_header net height n @ rs) ! 5 = encode_network net"
  "sub_slice 6 4 (wallet_header net height n @ rs) = to_le_bytes height"
  "sub_slice 10 4 (wallet_header net height n @ rs) = to_le_bytes n"
  by (simp_all add: wallet_header_def wallet_magic_def sub_slice_def nth_append)

lemma decode_encode_network [simp]: "decode_network (encode_network net) = Inr net"
  by (cases net) (simp_all add: decode_network_def encode_network_def)

lemma wallet_to_bytes_ok:
  assumes "enumerates order (dom (utxos w))" "length order < 2 ^ 32" "p2tr_coins (utxos w)"
  shows "\<exists>rs. wallet_to_bytes order w
      = Some (Inr (wallet_header (wallet_net w) (scan_height w) (word_of_nat (length order)) @ rs))
     \<and> encode_records (utxos w) order = Inr rs \<and> length rs = length order * record_len"
proof -
  have "\<forall>op \<in> set order. length (coin_script (the (utxos w op))) = script_len"
    using assms(1,3) by (auto simp: enumerates_def p2tr_coins_def script_len_def)
  from encode_records_ok [OF this] assms(2) show ?thesis by (auto simp: wallet_to_bytes_def)
qed

lemma wallet_from_header:
  assumes "length order < 2 ^ 32"
  shows "wallet_from_bytes scalar_ok (wallet_header net height (word_of_nat (length order)) @ rs) =
     (if length rs = length order * record_len
      then rbind (decode_records scalar_ok (length order) rs Map.empty) (\<lambda>us. Inr (from_parts height net us))
      else Inl TruncatedFile)"
proof -
  have "unat (word_of_nat (length order) :: u32) = length order"
    using assms by (simp add: unat_of_nat)
  then show ?thesis
    by (simp add: wallet_from_bytes_def wallet_header_fields)
qed

definition storable_wallet :: "(scalar \<Rightarrow> bool) \<Rightarrow> ('r, 'pk) wallet \<Rightarrow> bool" where
  "storable_wallet scalar_ok w \<longleftrightarrow> (\<forall>op c. utxos w op = Some c \<longrightarrow> storable scalar_ok c)"

lemma storable_wallet_p2tr: "storable_wallet scalar_ok w \<Longrightarrow> p2tr_coins (utxos w)"
  by (auto simp: storable_wallet_def p2tr_coins_def storable_def script_len_def)

lemma wallet_bytes_roundtrip:
  fixes w :: "('r, 'pk) wallet"
  assumes "enumerates order (dom (utxos w))" "length order < 2 ^ 32" "storable_wallet scalar_ok w"
  shows "\<exists>bytes. wallet_to_bytes order w = Some (Inr bytes)
     \<and> wallet_from_bytes scalar_ok bytes = Inr (from_parts (scan_height w) (wallet_net w) (utxos w) :: ('r, 'pk) wallet)"
proof -
  obtain rs where rs: "wallet_to_bytes order w
        = Some (Inr (wallet_header (wallet_net w) (scan_height w) (word_of_nat (length order)) @ rs))"
      "encode_records (utxos w) order = Inr rs" "length rs = length order * record_len"
    using wallet_to_bytes_ok [OF assms(1,2) storable_wallet_p2tr [OF assms(3)]] by blast
  have ord: "distinct order" "set order = dom (utxos w)" using assms(1) by (auto simp: enumerates_def)
  have "\<forall>op \<in> set order. storable scalar_ok (the (utxos w op))"
    using assms(3) ord(2) by (auto simp: storable_wallet_def)
  from decode_encode_records [OF this rs(2) ord(1), of Map.empty]
  have "decode_records scalar_ok (length order) rs Map.empty = Inr (\<lambda>op. if op \<in> dom (utxos w) then Some (the (utxos w op)) else None)"
    by (simp add: ord(2))
  also have "(\<lambda>op. if op \<in> dom (utxos w) then Some (the (utxos w op)) else None) = utxos w"
    by (auto simp: fun_eq_iff domIff)
  finally show ?thesis using rs by (simp add: wallet_from_header [OF assms(2)])
qed

text \<open>Saving through a temporary file, on the wallet file's own path suffix.\<close>

lemma save_atomic_cases:
  "(\<exists>e fs'. save_atomic fl p bytes fs = (Inl e, fs') \<and> fs' p = fs p)
     \<or> (\<exists>fs'. save_atomic fl p bytes fs = (Inr (), fs') \<and> fs' p = Some bytes)"
  using write_then_rename_cases [of "p @ ''.tmp''" p fl bytes fs] by (auto simp: save_atomic_def)

interpretation wallet_file: atomic_save "Inr :: u8 list \<Rightarrow> wallet_persistence_error + u8 list" save_atomic "\<lambda>_. True"
proof unfold_locales
  fix p fl bytes fs e fs'
  assume "save_atomic fl p bytes fs = (Inl e, fs')"
  then show "fs' p = fs p" using save_atomic_cases [of fl p bytes fs] by auto
next
  fix p fl bytes fs u fs'
  assume "save_atomic fl p bytes fs = (Inr u, fs')"
  then show "\<exists>bytes'. Inr bytes = (Inr bytes' :: wallet_persistence_error + _) \<and> fs' p = Some bytes'"
    using save_atomic_cases [of fl p bytes fs] by auto
next
  fix p v bytes fs
  show "\<exists>fs'. save_atomic no_faults p v fs = (Inr (), fs')"
    by (simp add: save_atomic_def write_then_rename_ok)
qed

section \<open>Properties\<close>



section \<open>Witnesses\<close>

definition demo_store :: wallet_store where
  "demo_store = \<lparr>ws_path = ''wallet.dat'', ws_network = Regtest\<rparr>"

lemma demo_wallet_order: "enumerates [demo_op] (dom (utxos demo_wallet))"
  by (simp add: enumerates_def demo_wallet_def)

lemma demo_wallet_storable: "storable_wallet (\<lambda>x. x < 100) demo_wallet"
  by (auto simp: storable_wallet_def storable_def demo_wallet_def demo_coin_def demo_script_def script_len_def
      split: if_splits)



end
