(* ===== verification/Keys_File.thy ===== *)
theory Keys_File
  imports Wallet File_System
begin

text \<open>
  The key file (wallet/src/silentpayments/keys_file.rs) and the import of its keys at
  start-up (\<open>auto_import_keys\<close>, src/bin/node.rs).  \<open>key_ok\<close> and \<open>xonly_ok\<close> are the
  checks of \<open>SecretKey::from_slice\<close> and \<open>XOnlyPublicKey::from_slice\<close> on 32 bytes.
\<close>

datatype spend_key_material = Secret secret_key | XOnlyPublic xonly

record keys_file =
  kf_scan_key :: secret_key
  kf_spend_key :: spend_key_material

datatype keys_file_error =
    KeysIo io_error
  | NotKeysFile
  | WrongLength nat nat
  | UnknownSpendTag u8
  | InvalidKey

definition keys_magic :: "u8 list" where "keys_magic = [0x53, 0x50, 0x4B, 0x46]"
definition key_len :: nat where "key_len = 32"
definition file_len :: nat where "file_len = 69"

definition spend_xonly :: "('r, 'pk, 'td) silent_payments \<Rightarrow> spend_key_material \<Rightarrow> xonly" where
  "spend_xonly sp k =
     (case k of Secret sk \<Rightarrow> fst (sp_x_only sp (sp_public_key sp sk)) | XOnlyPublic pk \<Rightarrow> pk)"

definition keys_to_bytes :: "keys_file \<Rightarrow> u8 list" where
  "keys_to_bytes kf =
     keys_magic @ to_be_bytes (kf_scan_key kf) @
     (case kf_spend_key kf of
        Secret sk \<Rightarrow> 0 # to_be_bytes sk
      | XOnlyPublic pk \<Rightarrow> 1 # to_be_bytes pk)"

definition key_from_slice :: "(256 word \<Rightarrow> bool) \<Rightarrow> u8 list \<Rightarrow> keys_file_error + 256 word" where
  "key_from_slice valid bs = (if valid (from_be_bytes bs) then Inr (from_be_bytes bs) else Inl InvalidKey)"

definition keys_from_bytes ::
    "(secret_key \<Rightarrow> bool) \<Rightarrow> (xonly \<Rightarrow> bool) \<Rightarrow> u8 list \<Rightarrow> keys_file_error + keys_file" where
  "keys_from_bytes key_ok xonly_ok bytes =
     rbind (check (length bytes = file_len) (WrongLength file_len (length bytes))) (\<lambda>_.
     rbind (check (take 4 bytes = keys_magic) NotKeysFile) (\<lambda>_.
     let body = drop 4 bytes in
     rbind (key_from_slice key_ok (take key_len body)) (\<lambda>scan_key.
     let tag = body ! key_len; spend_bytes = drop (key_len + 1) body in
     rbind (if tag = 0 then rbind (key_from_slice key_ok spend_bytes) (\<lambda>k. Inr (Secret k))
            else if tag = 1 then rbind (key_from_slice xonly_ok spend_bytes) (\<lambda>k. Inr (XOnlyPublic k))
            else Inl (UnknownSpendTag tag)) (\<lambda>spend_key.
     Inr \<lparr>kf_scan_key = scan_key, kf_spend_key = spend_key\<rparr>))))"

text \<open>\<open>File::create_new\<close> fails when the path exists.\<close>

definition fs_create_new :: "io_error option \<Rightarrow> path \<Rightarrow> file_system \<Rightarrow> io_error option \<times> file_system" where
  "fs_create_new fault p fs = (if fs p \<noteq> None then (Some AlreadyExists, fs) else fs_create fault p fs)"

definition keys_save ::
    "save_faults \<Rightarrow> path \<Rightarrow> keys_file \<Rightarrow> file_system \<Rightarrow> (keys_file_error + unit) \<times> file_system" where
  "keys_save fl p kf fs =
     (case fs_create_new (create_fault fl) p fs of
        (Some e, fs1) \<Rightarrow> (Inl (KeysIo e), fs1)
      | (None, fs1) \<Rightarrow>
          (case fs_write_all (write_fault fl) (written fl) p (keys_to_bytes kf) fs1 of
             (Some e, fs2) \<Rightarrow> (Inl (KeysIo e), fs2)
           | (None, fs2) \<Rightarrow> (Inr (), fs2)))"

definition keys_load ::
    "(secret_key \<Rightarrow> bool) \<Rightarrow> (xonly \<Rightarrow> bool) \<Rightarrow> path \<Rightarrow> file_system \<Rightarrow> keys_file_error + keys_file" where
  "keys_load key_ok xonly_ok p fs = rbind (map_err KeysIo (fs_read p fs)) (keys_from_bytes key_ok xonly_ok)"

definition auto_import_keys ::
    "('r, 'pk, 'td) silent_payments \<Rightarrow> (secret_key \<Rightarrow> bool) \<Rightarrow> (xonly \<Rightarrow> bool) \<Rightarrow> path \<Rightarrow> file_system
       \<Rightarrow> ('r, 'pk) wallet \<Rightarrow> ('r, 'pk) wallet option" where
  "auto_import_keys sp key_ok xonly_ok p fs w =
     (case keys_load key_ok xonly_ok p fs of
        Inl _ \<Rightarrow> None
      | Inr kf \<Rightarrow>
          (case (case kf_spend_key kf of
                   Secret spend \<Rightarrow> import_signing_keys sp (kf_scan_key kf) spend w
                 | XOnlyPublic x \<Rightarrow> import_keys sp (kf_scan_key kf) x w) of
             Inl _ \<Rightarrow> None
           | Inr w' \<Rightarrow> Some w'))"

section \<open>The encoding is one to one\<close>

lemma to_from_le_bytes:
  assumes "8 dvd LENGTH('a)" "length bs = LENGTH('a) div 8"
  shows "to_le_bytes (from_le_bytes bs :: 'a::len word) = bs"
proof -
  have "(256 :: nat) ^ (LENGTH('a) div 8) = (2 ^ 8) ^ (LENGTH('a) div 8)" by simp
  also have "\<dots> = 2 ^ LENGTH('a)" using assms(1) by (simp only: power_mult [symmetric] dvd_mult_div_cancel)
  finally have "le_val bs < 2 ^ LENGTH('a)" using le_val_bound [of bs] assms(2) by simp
  then have "unat (word_of_nat (le_val bs) :: 'a word) = le_val bs" by (simp add: unat_of_nat)
  then show ?thesis
    using le_bytes_le_val [of bs] assms(2) by (simp add: to_le_bytes_def from_le_bytes_def)
qed

lemma to_from_be_bytes: "length bs = 32 \<Longrightarrow> to_be_bytes (from_be_bytes bs :: 256 word) = bs"
  using to_from_le_bytes [where 'a = 256, of "rev bs"] by (simp add: to_be_bytes_def from_be_bytes_def)

definition keys_valid :: "(secret_key \<Rightarrow> bool) \<Rightarrow> (xonly \<Rightarrow> bool) \<Rightarrow> keys_file \<Rightarrow> bool" where
  "keys_valid key_ok xonly_ok kf \<longleftrightarrow>
     key_ok (kf_scan_key kf) \<and> (case kf_spend_key kf of Secret k \<Rightarrow> key_ok k | XOnlyPublic x \<Rightarrow> xonly_ok x)"

lemma length_keys_to_bytes: "length (keys_to_bytes kf) = file_len"
  by (cases "kf_spend_key kf") (simp_all add: keys_to_bytes_def keys_magic_def file_len_def)

lemma key_from_slice_enc [simp]: "valid k \<Longrightarrow> key_from_slice valid (to_be_bytes k) = Inr k"
  by (simp add: key_from_slice_def)

lemma keys_from_parts:
  assumes "length a = 32" "length b = 32"
  shows "keys_from_bytes key_ok xonly_ok (keys_magic @ a @ tag # b) =
     rbind (key_from_slice key_ok a) (\<lambda>scan_key.
     rbind (if tag = 0 then rbind (key_from_slice key_ok b) (\<lambda>k. Inr (Secret k))
            else if tag = 1 then rbind (key_from_slice xonly_ok b) (\<lambda>k. Inr (XOnlyPublic k))
            else Inl (UnknownSpendTag tag)) (\<lambda>spend_key.
     Inr \<lparr>kf_scan_key = scan_key, kf_spend_key = spend_key\<rparr>))"
proof -
  have "length keys_magic = 4" by (simp add: keys_magic_def)
  then show ?thesis using assms by (simp add: keys_from_bytes_def file_len_def key_len_def nth_append)
qed

lemma keys_from_to_bytes:
  assumes "keys_valid key_ok xonly_ok kf"
  shows "keys_from_bytes key_ok xonly_ok (keys_to_bytes kf) = Inr kf"
proof (cases "kf_spend_key kf")
  case (Secret k)
  then show ?thesis
    using assms keys_from_parts [of "to_be_bytes (kf_scan_key kf)" "to_be_bytes k" key_ok xonly_ok 0]
    by (simp add: keys_to_bytes_def keys_valid_def)
next
  case (XOnlyPublic x)
  then show ?thesis
    using assms keys_from_parts [of "to_be_bytes (kf_scan_key kf)" "to_be_bytes x" key_ok xonly_ok 1]
    by (simp add: keys_to_bytes_def keys_valid_def)
qed

lemma keys_from_bytes_canonical:
  assumes "keys_from_bytes key_ok xonly_ok bytes = Inr kf"
  shows "bytes = keys_to_bytes kf \<and> keys_valid key_ok xonly_ok kf"
proof -
  have len: "length bytes = 69" and magic: "take 4 bytes = keys_magic"
    using assms by (auto simp: keys_from_bytes_def rbind_Inr_iff check_def file_len_def split: if_splits)
  define a where "a = take 32 (drop 4 bytes)"
  define b where "b = drop (Suc 32) (drop 4 bytes)"
  define tag where "tag = drop 4 bytes ! 32"
  have parts: "length a = 32" "length b = 32" using len by (simp_all add: a_def b_def)
  have "drop 4 bytes = a @ tag # b"
    unfolding a_def b_def tag_def by (rule id_take_nth_drop) (simp add: len)
  then have bytes: "bytes = keys_magic @ a @ tag # b"
    using append_take_drop_id [of 4 bytes] unfolding magic by (simp only:)
  have inverse: "to_be_bytes (from_be_bytes a :: 256 word) = a" "to_be_bytes (from_be_bytes b :: 256 word) = b"
    using to_from_be_bytes parts by blast+
  have "keys_from_bytes key_ok xonly_ok (keys_magic @ a @ tag # b) = Inr kf" using assms bytes by simp
  then have "keys_magic @ a @ tag # b = keys_to_bytes kf \<and> keys_valid key_ok xonly_ok kf"
    unfolding keys_from_parts [OF parts]
    by (auto simp: rbind_Inr_iff key_from_slice_def keys_to_bytes_def keys_valid_def inverse split: if_splits)
  then show ?thesis using bytes by simp
qed

section \<open>Properties\<close>

text \<open>
  C29: The key file is read back as it was written, and only files that the writer could
  have written are accepted: the encoding is one to one on valid keys.  Saving never
  overwrites: when the path exists it fails with \<open>AlreadyExists\<close> and changes nothing.
\<close>

theorem keys_file_roundtrip:
  assumes "keys_valid key_ok xonly_ok kf"
  shows "(fs p = None \<longrightarrow> (\<exists>fs'. keys_save no_faults p kf fs = (Inr (), fs') \<and> keys_load key_ok xonly_ok p fs' = Inr kf))
     \<and> (fs p \<noteq> None \<longrightarrow> keys_save fl p kf fs = (Inl (KeysIo AlreadyExists), fs))
     \<and> (keys_from_bytes key_ok xonly_ok bytes = Inr kf \<longleftrightarrow> bytes = keys_to_bytes kf)"
proof -
  have "keys_load key_ok xonly_ok p (fs(p \<mapsto> keys_to_bytes kf)) = Inr kf"
    by (simp add: keys_load_def fs_read_def keys_from_to_bytes [OF assms])
  moreover have "fs p = None \<Longrightarrow> keys_save no_faults p kf fs = (Inr (), fs(p \<mapsto> keys_to_bytes kf))"
    by (simp add: keys_save_def fs_create_new_def fs_defs no_faults_def)
  moreover have "fs p \<noteq> None \<Longrightarrow> keys_save fl p kf fs = (Inl (KeysIo AlreadyExists), fs)"
    by (simp add: keys_save_def fs_create_new_def)
  ultimately show ?thesis
    using keys_from_to_bytes [OF assms] keys_from_bytes_canonical [of key_ok xonly_ok bytes kf] by auto
qed

text \<open>
  What the key import relies on of secp256k1: a public key with even parity is the even key
  of its x coordinate, and negating a secret key with odd parity gives that key.
\<close>

definition parity_laws :: "('r, 'pk, 'td) silent_payments \<Rightarrow> bool" where
  "parity_laws sp \<longleftrightarrow>
     (\<forall>k. sp_even_key sp (fst (sp_x_only sp (sp_public_key sp k))) =
        sp_public_key sp (if snd (sp_x_only sp (sp_public_key sp k)) then sp_negate sp k else k))"

text \<open>
  C30: Keys imported from a file fit together: after a file with a spend secret the
  wallet's signing secret belongs to the spend key its addresses are built from, which is the
  x-only key of the file; coins, reservations and height are kept.  A file with a public
  spend key sets that key and leaves the signing secret of the wallet as it was, even when
  it belongs to another spend key.
\<close>

theorem imported_keys_match:
  assumes "parity_laws sp" "keys_load key_ok xonly_ok p fs = Inr kf"
    and "auto_import_keys sp key_ok xonly_ok p fs w = Some w'"
  shows "spend_key w' = Some (sp_even_key sp (spend_xonly sp (kf_spend_key kf)))
     \<and> map_option keys_scan_key (keys w') = Some (kf_scan_key kf)
     \<and> (case kf_spend_key kf of
          Secret _ \<Rightarrow> map_option (sp_public_key sp) (spend_secret w') = spend_key w'
        | XOnlyPublic _ \<Rightarrow> spend_secret w' = spend_secret w)
     \<and> utxos w' = utxos w \<and> reserved w' = reserved w \<and> scan_height w' = scan_height w"
proof (cases "kf_spend_key kf")
  case (Secret k)
  obtain x odd where xo: "sp_x_only sp (sp_public_key sp k) = (x, odd)" by fastforce
  have "sp_even_key sp x = sp_public_key sp (if odd then sp_negate sp k else k)"
    using assms(1) xo by (metis fst_conv parity_laws_def snd_conv)
  then show ?thesis
    using assms(2,3) Secret xo
    by (auto simp: auto_import_keys_def import_signing_keys_def import_keys_def rbind_Inr_iff spend_xonly_def
        Let_def split: sum.splits)
next
  case (XOnlyPublic x)
  then show ?thesis
    using assms(2,3)
    by (auto simp: auto_import_keys_def import_keys_def rbind_Inr_iff spend_xonly_def Let_def split: sum.splits)
qed

section \<open>Witnesses\<close>

definition demo_keys_file :: keys_file where
  "demo_keys_file = \<lparr>kf_scan_key = 8, kf_spend_key = Secret 6\<rparr>"

lemma demo_keys_valid: "keys_valid (\<lambda>k. k \<noteq> 0) (\<lambda>x. True) demo_keys_file"
  by (simp add: keys_valid_def demo_keys_file_def)

theorem keys_file_roundtrip_witness:
  "\<exists>fs'. keys_save no_faults ''keys'' demo_keys_file Map.empty = (Inr (), fs')
     \<and> keys_load (\<lambda>k. k \<noteq> 0) (\<lambda>x. True) ''keys'' fs' = Inr demo_keys_file"
  using keys_file_roundtrip [OF demo_keys_valid, of Map.empty "''keys''" no_faults "[]"] by simp

theorem imported_keys_match_witness:
  "\<exists>w'. auto_import_keys demo_sp (\<lambda>k. k \<noteq> 0) (\<lambda>x. True) ''keys'' [''keys'' \<mapsto> keys_to_bytes demo_keys_file]
        (wallet_new Regtest :: (unit, xonly) wallet) = Some w'
     \<and> spend_key w' = Some 6 \<and> spend_secret w' = Some 6"
proof -
  let ?fs = "[''keys'' \<mapsto> keys_to_bytes demo_keys_file]"
  have load: "keys_load (\<lambda>k. k \<noteq> 0) (\<lambda>x. True) ''keys'' ?fs = Inr demo_keys_file"
    by (simp add: keys_load_def fs_read_def keys_from_to_bytes [OF demo_keys_valid])
  then obtain w' where w': "auto_import_keys demo_sp (\<lambda>k. k \<noteq> 0) (\<lambda>x. True) ''keys'' ?fs
      (wallet_new Regtest :: (unit, xonly) wallet) = Some w'"
    by (simp add: auto_import_keys_def demo_keys_file_def import_signing_keys_def import_keys_def build_receiver_def
        demo_sp_def)
  have "parity_laws demo_sp" by (simp add: parity_laws_def demo_sp_def)
  from imported_keys_match [OF this load w'] have "spend_key w' = Some 6"
    "map_option (sp_public_key demo_sp) (spend_secret w') = spend_key w'"
    by (simp_all add: demo_keys_file_def demo_sp_def spend_xonly_def)
  then show ?thesis using w' by (auto simp: demo_sp_def)
qed

end
