(* ===== verification/Wallet_Sync.thy ===== *)
theory Wallet_Sync
  imports Manager Wallet_Store Keys_File
begin

text \<open>
  The wallet kept in step with the chain (src/bin/node.rs): the kernel's callbacks send scan
  events, the scan thread applies them to the wallet and saves it, and the wallet is loaded
  again when the node starts.  The interface \<open>chain_follower\<close> is what following a chain of
  blocks needs of connecting and disconnecting one; the coins of a wallet are an instance, so
  a wallet refines the list of blocks it has seen, across reorganisations, failed saves and
  restarts.
\<close>

section \<open>Following a chain\<close>

text \<open>A state is in step with a chain when it is what connecting the chain's blocks in order gives.\<close>

fun replay :: "('b \<Rightarrow> 's \<Rightarrow> 's option) \<Rightarrow> 'b list \<Rightarrow> 's \<Rightarrow> 's option" where
  "replay connect [] s = Some s"
| "replay connect (b # bs) s = Option.bind (connect b s) (replay connect bs)"

fun fresh_blocks :: "('b list \<Rightarrow> 'b \<Rightarrow> bool) \<Rightarrow> 'b list \<Rightarrow> 'b list \<Rightarrow> bool" where
  "fresh_blocks fresh pre [] \<longleftrightarrow> True"
| "fresh_blocks fresh pre (b # bs) \<longleftrightarrow> fresh pre b \<and> fresh_blocks fresh (pre @ [b]) bs"

lemma replay_append:
  "replay connect (bs @ [b]) s = Option.bind (replay connect bs s) (connect b)"
  by (induction bs arbitrary: s) (auto split: Option.bind_splits)

lemma fresh_blocks_append:
  "fresh_blocks fresh pre (bs @ [b]) \<longleftrightarrow> fresh_blocks fresh pre bs \<and> fresh (pre @ bs) b"
  by (induction bs arbitrary: pre) auto

definition follows ::
    "('b \<Rightarrow> 's \<Rightarrow> 's option) \<Rightarrow> ('b list \<Rightarrow> 'b \<Rightarrow> bool) \<Rightarrow> 's \<Rightarrow> 'b list \<Rightarrow> 's \<Rightarrow> bool" where
  "follows connect fresh start chain s \<longleftrightarrow> fresh_blocks fresh [] chain \<and> replay connect chain start = Some s"

locale chain_follower =
  fixes connect :: "'b \<Rightarrow> 's \<Rightarrow> 's option" and disconnect :: "'b \<Rightarrow> 's \<Rightarrow> 's"
    and fresh :: "'b list \<Rightarrow> 'b \<Rightarrow> bool" and start :: 's
  assumes undo: "replay connect chain start = Some s \<Longrightarrow> fresh chain b \<Longrightarrow> connect b s = Some s' \<Longrightarrow> disconnect b s' = s"
    and unseen: "replay connect chain start = Some s \<Longrightarrow> fresh chain b \<Longrightarrow> disconnect b s = s"
begin

lemma follow_start: "follows connect fresh start [] start"
  by (simp add: follows_def)

lemma follow_connect:
  "follows connect fresh start chain s \<Longrightarrow> fresh chain b \<Longrightarrow> connect b s = Some s' \<Longrightarrow> follows connect fresh start (chain @ [b]) s'"
  by (simp add: follows_def replay_append fresh_blocks_append)

lemma follow_disconnect:
  "follows connect fresh start (chain @ [b]) s \<Longrightarrow> follows connect fresh start chain (disconnect b s)"
  using undo by (auto simp: follows_def replay_append fresh_blocks_append split: Option.bind_splits)

lemma follow_unseen:
  "follows connect fresh start chain s \<Longrightarrow> fresh chain b \<Longrightarrow> follows connect fresh start chain (disconnect b s)"
  using unseen [of chain s b] by (simp add: follows_def)

end

section \<open>The coins of a wallet follow the chain\<close>

text \<open>A block with its undo data and height, as the scan thread hands it to the wallet.\<close>

type_synonym seen_block = "kernel_tx list \<times> u8 list list list \<times> u32"

definition scan_coins ::
    "('r, 'pk, 'td) silent_payments \<Rightarrow> 'r silent_payment_keys \<Rightarrow> seen_block \<Rightarrow> (outpoint \<rightharpoonup> coin) \<Rightarrow> (outpoint \<rightharpoonup> coin) option" where
  "scan_coins sp k blk us =
     (case blk of (block, spents, height) \<Rightarrow>
        map_option (\<lambda>found. mark_spends height block (insert_coins found us))
          (scan_block_inner sp (keys_receiver k) (keys_scan_key k) block spents height))"

definition chain_txids :: "seen_block list \<Rightarrow> txid set" where
  "chain_txids chain = (\<Union>blk \<in> set chain. ktx_txid ` set (fst blk))"

definition block_inputs :: "kernel_tx list \<Rightarrow> outpoint set" where
  "block_inputs block = (\<Union>tx \<in> set block. in_outpoint ` set (ktx_inputs tx))"

definition chain_inputs :: "seen_block list \<Rightarrow> outpoint set" where
  "chain_inputs chain = (\<Union>blk \<in> set chain. block_inputs (fst blk))"

text \<open>
  What consensus gives of a block that extends a chain, and of a block that was never part of
  it: its transactions are not among the chain's, and it spends no output of the chain that
  the chain has already spent.
\<close>

definition new_block :: "seen_block list \<Rightarrow> seen_block \<Rightarrow> bool" where
  "new_block chain blk \<longleftrightarrow>
     ktx_txid ` set (fst blk) \<inter> chain_txids chain = {}
     \<and> (\<forall>op \<in> block_inputs (fst blk) \<inter> chain_inputs chain. op_txid op \<notin> chain_txids chain)"

lemma spender_block_inputs: "spender block op = Some tx \<Longrightarrow> op \<in> block_inputs block"
  using spender_in spender_input by (fastforce simp: block_inputs_def)

text \<open>Every coin was created in the chain and, if spent, spent in the chain.\<close>

definition chain_coins :: "seen_block list \<Rightarrow> (outpoint \<rightharpoonup> coin) \<Rightarrow> bool" where
  "chain_coins chain us \<longleftrightarrow>
     (\<forall>op c. us op = Some c \<longrightarrow> op_txid op \<in> chain_txids chain
        \<and> (\<forall>s. coin_spent_by c = Some s \<longrightarrow> sb_txid s \<in> chain_txids chain \<and> op \<in> chain_inputs chain))"

lemma chain_coins_scan:
  assumes "chain_coins chain us" "scan_coins sp k blk us = Some us'"
  shows "chain_coins (chain @ [blk]) us'"
proof -
  obtain block spents height where blk: "blk = (block, spents, height)" by (cases blk)
  obtain found where found: "scan_block_inner sp (keys_receiver k) (keys_scan_key k) block spents height = Some found"
    "us' = mark_spends height block (insert_coins found us)"
    using assms(2) by (auto simp: scan_coins_def blk)
  have ins: "op_txid op \<in> chain_txids (chain @ [blk]) \<and> (\<forall>s. coin_spent_by c = Some s \<longrightarrow>
      sb_txid s \<in> chain_txids (chain @ [blk]) \<and> op \<in> chain_inputs (chain @ [blk]))"
    if c: "insert_coins found us op = Some c" for op c
  proof (cases "us op = Some c")
    case True
    then show ?thesis using assms(1) by (auto simp: chain_coins_def chain_txids_def chain_inputs_def)
  next
    case False
    then have inf: "(op, c) \<in> set found" using c by (auto simp: insert_coins_map map_add_Some_iff dest!: map_of_SomeD)
    then obtain tx i t l inputs xs pk where "(op, c) = coin_of tx height i t l"
      using scan_txs_origin [OF found(1) [unfolded scan_block_inner_def]] by blast
    then show ?thesis using scan_block_inner_txids [OF found(1) inf] by (auto simp: coin_of_def blk chain_txids_def)
  qed
  show ?thesis unfolding chain_coins_def
  proof (intro allI impI)
    fix op c assume c: "us' op = Some c"
    show "op_txid op \<in> chain_txids (chain @ [blk]) \<and> (\<forall>s. coin_spent_by c = Some s \<longrightarrow>
        sb_txid s \<in> chain_txids (chain @ [blk]) \<and> op \<in> chain_inputs (chain @ [blk]))"
    proof (cases "spender block op")
      case None
      then show ?thesis using ins c by (simp add: found(2) mark_spends_eq)
    next
      case (Some tx)
      then obtain c' where "insert_coins found us op = Some c'" "c = c'\<lparr>coin_spent_by := Some \<lparr>sb_txid = ktx_txid tx, sb_height = height\<rparr>\<rparr>"
        using c by (auto simp: found(2) mark_spends_eq)
      then show ?thesis using ins [of op c'] spender_in [OF Some] spender_block_inputs [OF Some]
        by (auto simp: blk chain_txids_def chain_inputs_def)
    qed
  qed
qed

lemma replay_chain_coins: "replay (scan_coins sp k) chain Map.empty = Some us \<Longrightarrow> chain_coins chain us"
proof (induction chain arbitrary: us rule: rev_induct)
  case (snoc blk chain)
  then show ?case by (auto simp: replay_append split: Option.bind_splits intro: chain_coins_scan)
qed (auto simp: chain_coins_def)

lemma new_block_coin:
  assumes "chain_coins chain us" "new_block chain blk" "us op = Some c"
  shows "op_txid op \<notin> ktx_txid ` set (fst blk)
     \<and> (\<forall>s. coin_spent_by c = Some s \<longrightarrow> sb_txid s \<notin> ktx_txid ` set (fst blk) \<and> spender (fst blk) op = None)"
proof -
  have in_chain: "op_txid op \<in> chain_txids chain"
    "\<And>s. coin_spent_by c = Some s \<Longrightarrow> sb_txid s \<in> chain_txids chain \<and> op \<in> chain_inputs chain"
    using assms(1,3) by (auto simp: chain_coins_def)
  have new: "ktx_txid ` set (fst blk) \<inter> chain_txids chain = {}"
    "op \<notin> block_inputs (fst blk) \<inter> chain_inputs chain"
    using assms(2) in_chain(1) by (auto simp: new_block_def)
  have "spender (fst blk) op = None" if "coin_spent_by c = Some s" for s
    using new(2) in_chain(2) [OF that] spender_block_inputs [of "fst blk" op] by (cases "spender (fst blk) op") auto
  then show ?thesis using in_chain new(1) by blast
qed

interpretation wallet_chain: chain_follower "scan_coins sp k" "\<lambda>blk. forget_block (fst blk)" new_block Map.empty for sp k
proof unfold_locales
  fix chain us blk us'
  assume "replay (scan_coins sp k) chain Map.empty = Some us" "new_block chain blk" "scan_coins sp k blk us = Some us'"
  note coins = replay_chain_coins [OF this(1)] and new = this(2) and scan = this(3)
  obtain block spents height where blk: "blk = (block, spents, height)" by (cases blk)
  obtain found where found: "scan_block_inner sp (keys_receiver k) (keys_scan_key k) block spents height = Some found"
    "us' = mark_spends height block (insert_coins found us)"
    using scan by (auto simp: scan_coins_def blk)
  show "forget_block (fst blk) us' = us"
    unfolding found(2) blk fst_conv
    using new_block_coin [OF coins new] unfolding blk fst_conv by (rule forget_scanned [OF found(1)])
next
  fix chain us blk
  assume "replay (scan_coins sp k) chain Map.empty = Some us" "new_block chain blk"
  note coins = replay_chain_coins [OF this(1)] and new = this(2)
  have "forget_block (fst blk) us op = us op" for op
  proof (cases "us op")
    case (Some c)
    then show ?thesis using new_block_coin [OF coins new Some]
      by (auto simp: forget_block_def unspend_def Let_def split: option.split)
  qed (simp add: forget_block_def)
  then show "forget_block (fst blk) us = us" by blast
qed

section \<open>Scan events\<close>

datatype 'h scan_event = Connected "kernel_tx list" 'h | Disconnected "kernel_tx list" u32

text \<open>\<open>sy_events\<close> is the channel to the scan thread, \<open>sy_open\<close> whether the thread still receives.\<close>

record ('r, 'pk, 'h) sync_state =
  sy_wallet :: "('r, 'pk) wallet"
  sy_fs :: file_system
  sy_fatal :: fatal_shutdown
  sy_events :: "'h scan_event list"
  sy_open :: bool

definition sync_trigger :: "('r, 'pk, 'h) sync_state \<Rightarrow> ('r, 'pk, 'h) sync_state option" where
  "sync_trigger s = map_option (\<lambda>f. s\<lparr>sy_fatal := f\<rparr>) (trigger (sy_fatal s))"

definition send_event :: "'h scan_event \<Rightarrow> ('r, 'pk, 'h) sync_state \<Rightarrow> ('r, 'pk, 'h) sync_state option" where
  "send_event e s = (if sy_open s then Some (s\<lparr>sy_events := sy_events s @ [e]\<rparr>) else sync_trigger s)"

definition on_block_connected ::
    "kernel_tx list \<Rightarrow> 'h \<Rightarrow> ('r, 'pk, 'h) sync_state \<Rightarrow> ('r, 'pk, 'h) sync_state option" where
  "on_block_connected block block_hash s =
     (case keys (sy_wallet s) of None \<Rightarrow> Some s | Some _ \<Rightarrow> send_event (Connected block block_hash) s)"

definition on_block_disconnected ::
    "kernel_tx list \<Rightarrow> i32 \<Rightarrow> ('r, 'pk, 'h) sync_state \<Rightarrow> ('r, 'pk, 'h) sync_state option" where
  "on_block_disconnected block height s = send_event (Disconnected block (ucast height)) s"

section \<open>The scan thread\<close>

text \<open>The kernel's view of a block hash: the height of its tree entry, and its undo data.\<close>

record 'h block_source =
  tree_height :: "'h \<Rightarrow> i32 option"
  read_spent_outputs :: "'h \<Rightarrow> string + u8 list list list"

definition save_or_shutdown ::
    "save_faults \<Rightarrow> wallet_store \<Rightarrow> outpoint list \<Rightarrow> ('r, 'pk, 'h) sync_state \<Rightarrow> ('r, 'pk, 'h) sync_state option" where
  "save_or_shutdown fl store order s =
     Option.bind (store_save fl store order (sy_wallet s) (sy_fs s)) (\<lambda>(res, fs').
       case res of
         Inr _ \<Rightarrow> Some (s\<lparr>sy_fs := fs'\<rparr>)
       | Inl _ \<Rightarrow> sync_trigger (s\<lparr>sy_fs := fs'\<rparr>))"

definition scan_connected ::
    "('r, 'pk, 'td) silent_payments \<Rightarrow> 'h block_source \<Rightarrow> save_faults \<Rightarrow> wallet_store \<Rightarrow> outpoint list
       \<Rightarrow> kernel_tx list \<Rightarrow> 'h \<Rightarrow> ('r, 'pk, 'h) sync_state \<Rightarrow> ('r, 'pk, 'h) sync_state option" where
  "scan_connected sp K fl store order block block_hash s =
     (case tree_height K block_hash of
        None \<Rightarrow> sync_trigger s
      | Some height \<Rightarrow>
          (case read_spent_outputs K block_hash of
             Inl _ \<Rightarrow> sync_trigger s
           | Inr spents \<Rightarrow>
               Option.bind (scan_block sp block spents (ucast height) (sy_wallet s)) (\<lambda>(count, w).
                 save_or_shutdown fl store order (s\<lparr>sy_wallet := w\<rparr>))))"

definition scan_disconnected ::
    "save_faults \<Rightarrow> wallet_store \<Rightarrow> outpoint list \<Rightarrow> kernel_tx list \<Rightarrow> ('r, 'pk, 'h) sync_state
       \<Rightarrow> ('r, 'pk, 'h) sync_state option" where
  "scan_disconnected fl store order block s =
     save_or_shutdown fl store order (s\<lparr>sy_wallet := process_disconnect block (sy_wallet s)\<rparr>)"

definition scan_round ::
    "('r, 'pk, 'td) silent_payments \<Rightarrow> 'h block_source \<Rightarrow> save_faults \<Rightarrow> wallet_store \<Rightarrow> outpoint list
       \<Rightarrow> ('r, 'pk, 'h) sync_state \<Rightarrow> ('r, 'pk, 'h) sync_state option" where
  "scan_round sp K fl store order s =
     (case sy_events s of
        [] \<Rightarrow> Some s
      | Connected block block_hash # es \<Rightarrow> scan_connected sp K fl store order block block_hash (s\<lparr>sy_events := es\<rparr>)
      | Disconnected block height # es \<Rightarrow> scan_disconnected fl store order block (s\<lparr>sy_events := es\<rparr>))"

section \<open>Starting the node\<close>

text \<open>\<open>None\<close> is the exit with an error.\<close>

definition initial_wallet ::
    "(scalar \<Rightarrow> bool) \<Rightarrow> wallet_store \<Rightarrow> file_system \<Rightarrow> ('r, 'pk) wallet option" where
  "initial_wallet scalar_ok store fs =
     (if store_exists store fs
      then (case store_load scalar_ok store fs of Inr w \<Rightarrow> Some w | Inl _ \<Rightarrow> None)
      else Some (wallet_new (ws_network store)))"

definition start_node ::
    "('r, 'pk, 'td) silent_payments \<Rightarrow> (scalar \<Rightarrow> bool) \<Rightarrow> (secret_key \<Rightarrow> bool) \<Rightarrow> (xonly \<Rightarrow> bool) \<Rightarrow> wallet_store
       \<Rightarrow> path option \<Rightarrow> file_system \<Rightarrow> ('r, 'pk, 'h) sync_state option" where
  "start_node sp scalar_ok key_ok xonly_ok store sp_keys_file fs =
     Option.bind (initial_wallet scalar_ok store fs) (\<lambda>w.
     Option.bind (case sp_keys_file of None \<Rightarrow> Some w | Some p \<Rightarrow> auto_import_keys sp key_ok xonly_ok p fs w) (\<lambda>w'.
     Some \<lparr>sy_wallet = w', sy_fs = fs, sy_fatal = fatal_new, sy_events = [], sy_open = True\<rparr>))"

section \<open>Runs\<close>

text \<open>
  The node with the blocks its wallet has seen: \<open>chain\<close> those in the wallet, \<open>saved\<close>
  those in the wallet of the last successful save.  The kernel connects blocks that are new to
  the chain and disconnects the last one or one the wallet never scanned; everything else in
  the node (requests, reservations, key import, other fatal errors) leaves the coins alone.
  One pair of keys is used throughout.
\<close>

definition saved_chain ::
    "save_faults \<Rightarrow> wallet_store \<Rightarrow> outpoint list \<Rightarrow> file_system \<Rightarrow> ('r, 'pk, 'h) sync_state \<Rightarrow> 'b list \<Rightarrow> 'b list \<Rightarrow> 'b list" where
  "saved_chain fl store order fs s' chain saved =
     (if store_save fl store order (sy_wallet s') fs = Some (Inr (), sy_fs s') then chain else saved)"

inductive sync_run ::
    "('r, 'pk, 'td) silent_payments \<Rightarrow> 'h block_source \<Rightarrow> (scalar \<Rightarrow> bool) \<Rightarrow> (secret_key \<Rightarrow> bool) \<Rightarrow> (xonly \<Rightarrow> bool)
       \<Rightarrow> wallet_store \<Rightarrow> 'r silent_payment_keys \<Rightarrow> ('r, 'pk, 'h) sync_state \<Rightarrow> seen_block list \<Rightarrow> seen_block list \<Rightarrow> bool"
  for sp K scalar_ok key_ok xonly_ok store k where
  first_start: "fs (ws_path store) = None \<Longrightarrow> start_node sp scalar_ok key_ok xonly_ok store kp fs = Some s \<Longrightarrow>
     keys (sy_wallet s) \<in> {None, Some k} \<Longrightarrow> sync_run sp K scalar_ok key_ok xonly_ok store k s [] []"
| restart: "sync_run sp K scalar_ok key_ok xonly_ok store k s chain saved \<Longrightarrow>
     start_node sp scalar_ok key_ok xonly_ok store kp (sy_fs s) = Some s' \<Longrightarrow>
     keys (sy_wallet s') \<in> {None, Some k} \<Longrightarrow> sync_run sp K scalar_ok key_ok xonly_ok store k s' saved saved"
| connected: "sync_run sp K scalar_ok key_ok xonly_ok store k s chain saved \<Longrightarrow>
     on_block_connected block h s = Some s' \<Longrightarrow> sync_run sp K scalar_ok key_ok xonly_ok store k s' chain saved"
| disconnected: "sync_run sp K scalar_ok key_ok xonly_ok store k s chain saved \<Longrightarrow>
     on_block_disconnected block height s = Some s' \<Longrightarrow> sync_run sp K scalar_ok key_ok xonly_ok store k s' chain saved"
| scan: "sync_run sp K scalar_ok key_ok xonly_ok store k s chain saved \<Longrightarrow>
     sy_events s = Connected block h # es \<Longrightarrow> tree_height K h = Some height \<Longrightarrow>
     read_spent_outputs K h = Inr spents \<Longrightarrow> new_block chain (block, spents, ucast height) \<Longrightarrow>
     scan_round sp K fl store order s = Some s' \<Longrightarrow> enumerates order (dom (utxos (sy_wallet s'))) \<Longrightarrow>
     chain' = chain @ [(block, spents, ucast height)] \<Longrightarrow>
     sync_run sp K scalar_ok key_ok xonly_ok store k s' chain' (saved_chain fl store order (sy_fs s) s' chain' saved)"
| scan_failed: "sync_run sp K scalar_ok key_ok xonly_ok store k s chain saved \<Longrightarrow>
     sy_events s = Connected block h # es \<Longrightarrow> tree_height K h = None \<or> read_spent_outputs K h = Inl e \<Longrightarrow>
     scan_round sp K fl store order s = Some s' \<Longrightarrow> sync_run sp K scalar_ok key_ok xonly_ok store k s' chain saved"
| undo: "sync_run sp K scalar_ok key_ok xonly_ok store k s (chain' @ [(block, spents, height)]) saved \<Longrightarrow>
     sy_events s = Disconnected block bh # es \<Longrightarrow>
     scan_round sp K fl store order s = Some s' \<Longrightarrow> enumerates order (dom (utxos (sy_wallet s'))) \<Longrightarrow>
     sync_run sp K scalar_ok key_ok xonly_ok store k s' chain' (saved_chain fl store order (sy_fs s) s' chain' saved)"
| undo_unseen: "sync_run sp K scalar_ok key_ok xonly_ok store k s chain saved \<Longrightarrow>
     sy_events s = Disconnected block bh # es \<Longrightarrow> new_block chain (block, [], 0) \<Longrightarrow>
     scan_round sp K fl store order s = Some s' \<Longrightarrow> enumerates order (dom (utxos (sy_wallet s'))) \<Longrightarrow>
     sync_run sp K scalar_ok key_ok xonly_ok store k s' chain (saved_chain fl store order (sy_fs s) s' chain saved)"
| other: "sync_run sp K scalar_ok key_ok xonly_ok store k s chain saved \<Longrightarrow>
     utxos w = utxos (sy_wallet s) \<Longrightarrow> wallet_net w = wallet_net (sy_wallet s) \<Longrightarrow>
     scan_height w = scan_height (sy_wallet s) \<Longrightarrow> keys w \<in> {keys (sy_wallet s), Some k} \<Longrightarrow>
     (triggered (sy_fatal s) \<Longrightarrow> triggered f) \<Longrightarrow>
     sync_run sp K scalar_ok key_ok xonly_ok store k (s\<lparr>sy_wallet := w, sy_fatal := f\<rparr>) chain saved"

section \<open>Every coin can be stored\<close>

text \<open>
  What the scan relies on of the libraries: a script that is pay-to-taproot has 34 bytes, and
  the tweaks and labels the receiver reports are valid scalars.
\<close>

definition scan_laws :: "('r, 'pk, 'td) silent_payments \<Rightarrow> (scalar \<Rightarrow> bool) \<Rightarrow> bool" where
  "scan_laws sp scalar_ok \<longleftrightarrow>
     (\<forall>s. sp_is_p2tr sp s \<longrightarrow> length s = 34)
     \<and> (\<forall>r sh xs found. sp_scan sp r sh xs = Inr found \<longrightarrow>
          (\<forall>(label, ks) \<in> set found. (\<forall>l. label = Some l \<longrightarrow> scalar_ok l) \<and> (\<forall>(pk, t) \<in> set ks. scalar_ok t)))"

lemma pays_storable:
  assumes "scan_laws sp scalar_ok" "pays sp r b inputs xs pk (coin_tweak c) (coin_label c)"
    and "parse_p2tr sp (coin_script c) = Some pk"
  shows "storable scalar_ok c"
proof -
  obtain sh found ks where "sp_scan sp r sh xs = Inr found" "(coin_label c, ks) \<in> set found" "(pk, coin_tweak c) \<in> set ks"
    using assms(2) by (auto simp: pays_def)
  then have "scalar_ok (coin_tweak c)" "\<And>l. coin_label c = Some l \<Longrightarrow> scalar_ok l"
    using assms(1) unfolding scan_laws_def by blast+
  moreover have "length (coin_script c) = 34"
    using assms(1,3) by (auto simp: scan_laws_def parse_p2tr_def split: if_splits)
  ultimately show ?thesis by (simp add: storable_def script_len_def)
qed

lemma scan_block_scan_coins:
  assumes "keys w = Some k" "scan_block sp block spents height w = Some (n, w')"
  shows "scan_coins sp k (block, spents, height) (utxos w) = Some (utxos w')
     \<and> w' = w\<lparr>utxos := utxos w', scan_height := height\<rparr>"
  using assms by (auto simp: scan_block_def scan_coins_def)

lemma scan_coins_storable:
  fixes sp :: "('r, 'pk, 'td) silent_payments"
  assumes "scan_laws sp scalar_ok" "\<And>op c. us op = Some c \<Longrightarrow> storable scalar_ok c"
    and "scan_coins sp k blk us = Some us'" "us' op = Some c"
  shows "storable scalar_ok c"
proof -
  obtain block spents height where blk: "blk = (block, spents, height)" by (cases blk)
  define w :: "('r, 'pk) wallet" where "w = (wallet_new Mainnet)\<lparr>keys := Some k, utxos := us\<rparr>"
  have "keys w = Some k" "utxos w = us" by (simp_all add: w_def)
  then obtain n w' where w': "scan_block sp block spents height w = Some (n, w')" "utxos w' = us'"
    using assms(3) by (auto simp: blk scan_coins_def scan_block_def)
  show ?thesis
  proof (rule scan_block_coins [where P = "storable scalar_ok", OF _ _ _ w'(1)])
    show "utxos w' op = Some c" using assms(4) w'(2) by simp
    show "\<And>op c. utxos w op = Some c \<Longrightarrow> storable scalar_ok c" using assms(2) by (simp add: w_def)
    show "\<And>c s. storable scalar_ok c \<Longrightarrow> storable scalar_ok (c\<lparr>coin_spent_by := s\<rparr>)" by (simp add: storable_def)
  qed (rule pays_storable [OF assms(1)])
qed

lemma follows_storable:
  assumes "scan_laws sp scalar_ok"
  shows "follows (scan_coins sp k) new_block Map.empty chain us \<Longrightarrow> us op = Some c \<Longrightarrow> storable scalar_ok c"
proof (induction chain arbitrary: us op c rule: rev_induct)
  case (snoc blk chain)
  then obtain us0 where "follows (scan_coins sp k) new_block Map.empty chain us0" "scan_coins sp k blk us0 = Some us"
    by (auto simp: follows_def replay_append fresh_blocks_append split: Option.bind_splits)
  then show ?case
    by (intro scan_coins_storable [where us = us0 and us' = us, OF assms _ _ snoc.prems(2)]) (rule snoc.IH)
qed (auto simp: follows_def)

section \<open>What a run keeps\<close>

text \<open>The wallet file holds the coins of the chain of the last save; without a file nothing was saved.\<close>

definition disk_holds ::
    "('r, 'pk, 'td) silent_payments \<Rightarrow> 'r silent_payment_keys \<Rightarrow> (scalar \<Rightarrow> bool) \<Rightarrow> wallet_store \<Rightarrow> file_system
       \<Rightarrow> seen_block list \<Rightarrow> bool" where
  "disk_holds sp k scalar_ok store fs saved \<longleftrightarrow>
     (case fs (ws_path store) of
        None \<Rightarrow> saved = []
      | Some bytes \<Rightarrow>
          (\<exists>height us. follows (scan_coins sp k) new_block Map.empty saved us
             \<and> store_load scalar_ok store fs = Inr (from_parts height (ws_network store) us :: ('r, 'pk) wallet)))"

definition sync_inv ::
    "('r, 'pk, 'td) silent_payments \<Rightarrow> (scalar \<Rightarrow> bool) \<Rightarrow> wallet_store \<Rightarrow> 'r silent_payment_keys
       \<Rightarrow> ('r, 'pk, 'h) sync_state \<Rightarrow> seen_block list \<Rightarrow> seen_block list \<Rightarrow> bool" where
  "sync_inv sp scalar_ok store k s chain saved \<longleftrightarrow>
     follows (scan_coins sp k) new_block Map.empty chain (utxos (sy_wallet s))
     \<and> wallet_net (sy_wallet s) = ws_network store \<and> keys (sy_wallet s) \<in> {None, Some k}
     \<and> (keys (sy_wallet s) = None \<longrightarrow> (\<forall>b h. Connected b h \<notin> set (sy_events s)))
     \<and> (\<not> triggered (sy_fatal s) \<longrightarrow> saved = chain) \<and> disk_holds sp k scalar_ok store (sy_fs s) saved"

lemma sync_trigger_Some:
  "sync_trigger s = Some s' \<Longrightarrow> triggered (sy_fatal s') \<and> s' = s\<lparr>sy_fatal := sy_fatal s'\<rparr>"
  by (auto simp: sync_trigger_def trigger_def split: if_splits)

lemma disk_holds_cong:
  fixes sp :: "('r, 'pk, 'td) silent_payments"
  shows "fs (ws_path store) = fs' (ws_path store) \<Longrightarrow> disk_holds sp k scalar_ok store fs saved \<longleftrightarrow> disk_holds sp k scalar_ok store fs' saved"
proof -
  assume "fs (ws_path store) = fs' (ws_path store)"
  moreover from this have "store_load scalar_ok store fs = (store_load scalar_ok store fs' :: _ + ('r, 'pk) wallet)"
    by (simp add: store_load_def wallet_load_def fs_read_def)
  ultimately show ?thesis by (simp add: disk_holds_def split: option.split)
qed

lemma store_save_cases:
  fixes sp :: "('r, 'pk, 'td) silent_payments" and w :: "('r, 'pk) wallet"
  assumes "store_save fl store order w fs = Some (res, fs')"
    and "enumerates order (dom (utxos w))" "storable_wallet scalar_ok w" "wallet_net w = ws_network store"
    and "follows (scan_coins sp k) new_block Map.empty chain (utxos w)"
  shows "case res of Inr _ \<Rightarrow> disk_holds sp k scalar_ok store fs' chain | Inl _ \<Rightarrow> fs' (ws_path store) = fs (ws_path store)"
proof -
  have len: "length order < 2 ^ 32"
    using assms(1) by (auto simp: store_save_def wallet_save_def wallet_to_bytes_def split: if_splits)
  obtain bytes where bytes: "wallet_to_bytes order w = Some (Inr bytes)"
    "wallet_from_bytes scalar_ok bytes = Inr (from_parts (scan_height w) (wallet_net w) (utxos w) :: ('r, 'pk) wallet)"
    using wallet_bytes_roundtrip [OF assms(2) len assms(3)] by blast
  have "save_atomic fl (ws_path store) bytes fs = (res, fs')"
    using assms(1) by (simp add: store_save_def wallet_save_def bytes(1))
  then consider e where "res = Inl e" "fs' (ws_path store) = fs (ws_path store)"
    | "res = Inr ()" "fs' (ws_path store) = Some bytes"
    using save_atomic_cases [of fl "ws_path store" bytes fs] by auto
  then show ?thesis
  proof cases
    case 2
    then have "store_load scalar_ok store fs' = Inr (from_parts (scan_height w) (ws_network store) (utxos w) :: ('r, 'pk) wallet)"
      using bytes(2) assms(4) by (simp add: store_load_def wallet_load_def fs_read_def from_parts_def)
    then show ?thesis using 2 assms(5) by (auto simp: disk_holds_def)
  qed simp
qed

lemma sync_inv_save:
  fixes sp :: "('r, 'pk, 'td) silent_payments" and s :: "('r, 'pk, 'h) sync_state"
  assumes laws: "scan_laws sp scalar_ok"
    and follow: "follows (scan_coins sp k) new_block Map.empty chain (utxos (sy_wallet s))"
    and net: "wallet_net (sy_wallet s) = ws_network store" and ks: "keys (sy_wallet s) \<in> {None, Some k}"
      "keys (sy_wallet s) = None \<longrightarrow> (\<forall>b h. Connected b h \<notin> set (sy_events s))"
    and disk: "disk_holds sp k scalar_ok store (sy_fs s) saved"
    and save: "save_or_shutdown fl store order s = Some s'" and ord: "enumerates order (dom (utxos (sy_wallet s')))"
  shows "sync_inv sp scalar_ok store k s' chain (saved_chain fl store order (sy_fs s) s' chain saved)"
proof -
  obtain res fs' where res: "store_save fl store order (sy_wallet s) (sy_fs s) = Some (res, fs')"
    using save by (auto simp: save_or_shutdown_def split: Option.bind_splits)
  have s': "s' = s\<lparr>sy_fs := fs', sy_fatal := sy_fatal s'\<rparr>" "\<And>e. res = Inl e \<Longrightarrow> triggered (sy_fatal s')"
    using save res by (auto simp: save_or_shutdown_def dest!: sync_trigger_Some split: sum.splits)
  have w': "sy_wallet s' = sy_wallet s" "sy_fs s' = fs'" "sy_events s' = sy_events s" by (subst s'(1), simp)+
  have "storable_wallet scalar_ok (sy_wallet s)"
    unfolding storable_wallet_def using follows_storable [OF laws follow] by blast
  note cases = store_save_cases [OF res ord [unfolded w'] this net follow]
  show ?thesis
  proof (cases res)
    case (Inl e)
    then have "disk_holds sp k scalar_ok store fs' saved"
      using disk_holds_cong [of fs' store "sy_fs s" sp k scalar_ok saved] disk cases by simp
    then show ?thesis using Inl res s'(2) follow net ks by (simp add: sync_inv_def saved_chain_def w')
  next
    case (Inr u)
    then show ?thesis using cases res follow net ks by (simp add: sync_inv_def saved_chain_def w')
  qed
qed

lemma auto_import_same:
  "auto_import_keys sp key_ok xonly_ok p fs w = Some w' \<Longrightarrow> utxos w' = utxos w \<and> wallet_net w' = wallet_net w"
  by (auto simp: auto_import_keys_def import_signing_keys_def import_keys_def rbind_Inr_iff Let_def
      split: option.splits sum.splits spend_key_material.splits prod.splits)

lemma sync_inv_start:
  fixes sp :: "('r, 'pk, 'td) silent_payments" and s :: "('r, 'pk, 'h) sync_state"
  assumes "start_node sp scalar_ok key_ok xonly_ok store kp fs = Some s" "keys (sy_wallet s) \<in> {None, Some k}"
    and "disk_holds sp k scalar_ok store fs saved"
  shows "sync_inv sp scalar_ok store k s saved saved"
proof -
  obtain w :: "('r, 'pk) wallet" where w: "initial_wallet scalar_ok store fs = Some w"
    and same: "utxos (sy_wallet s) = utxos w" "wallet_net (sy_wallet s) = wallet_net w" "sy_fs s = fs" "sy_events s = []"
    using assms(1)
    by (auto simp: start_node_def dest!: auto_import_same split: Option.bind_splits option.splits)
  have "follows (scan_coins sp k) new_block Map.empty saved (utxos w) \<and> wallet_net w = ws_network store"
  proof (cases "fs (ws_path store)")
    case None
    then show ?thesis using w assms(3)
      by (auto simp: initial_wallet_def store_exists_def disk_holds_def wallet_new_def wallet_chain.follow_start)
  next
    case (Some bytes)
    then show ?thesis using w assms(3)
      by (auto simp: initial_wallet_def store_exists_def disk_holds_def from_parts_def)
  qed
  then show ?thesis using assms(2,3) by (simp add: sync_inv_def same)
qed

lemma sync_inv_trigger:
  assumes "sync_inv sp scalar_ok store k s chain saved" "sync_trigger s = Some s'"
  shows "sync_inv sp scalar_ok store k s' chain saved"
proof -
  obtain f where "s' = s\<lparr>sy_fatal := f\<rparr>" "triggered f" using sync_trigger_Some [OF assms(2)] by blast
  then show ?thesis using assms(1) by (simp add: sync_inv_def)
qed

lemma send_event_inv:
  assumes "sync_inv sp scalar_ok store k s chain saved" "send_event e s = Some s'"
    and "\<And>b h. e = Connected b h \<Longrightarrow> keys (sy_wallet s) \<noteq> None"
  shows "sync_inv sp scalar_ok store k s' chain saved"
proof (cases "sy_open s")
  case True
  then have "s' = s\<lparr>sy_events := sy_events s @ [e]\<rparr>" using assms(2) by (simp add: send_event_def)
  then show ?thesis using assms(1,3) by (auto simp: sync_inv_def)
next
  case False
  then show ?thesis using assms(2) by (intro sync_inv_trigger [OF assms(1)]) (simp add: send_event_def)
qed

text \<open>Taking an event off the channel.\<close>

lemma sync_inv_take:
  "sync_inv sp scalar_ok store k s chain saved \<Longrightarrow> sy_events s = e # es \<Longrightarrow>
     sync_inv sp scalar_ok store k (s\<lparr>sy_events := es\<rparr>) chain saved"
  by (auto simp: sync_inv_def)

lemma sync_inv_scan:
  assumes laws: "scan_laws sp scalar_ok" and inv: "sync_inv sp scalar_ok store k s chain saved"
    and ev: "sy_events s = Connected block h # es"
    and src: "tree_height K h = Some height" "read_spent_outputs K h = Inr spents"
    and new: "new_block chain (block, spents, ucast height)"
    and step: "scan_round sp K fl store order s = Some s'" "enumerates order (dom (utxos (sy_wallet s')))"
  defines "chain' \<equiv> chain @ [(block, spents, ucast height)]"
  shows "sync_inv sp scalar_ok store k s' chain' (saved_chain fl store order (sy_fs s) s' chain' saved)"
proof -
  let ?s = "s\<lparr>sy_events := es\<rparr>"
  have key: "keys (sy_wallet s) = Some k" using inv ev by (auto simp: sync_inv_def)
  obtain n w where w: "scan_block sp block spents (ucast height) (sy_wallet s) = Some (n, w)"
    "save_or_shutdown fl store order (?s\<lparr>sy_wallet := w\<rparr>) = Some s'"
    using ev src step(1) by (auto simp: scan_round_def scan_connected_def split: Option.bind_splits)
  note coins = scan_block_scan_coins [OF key w(1)]
  have w': "keys w = Some k" "wallet_net w = wallet_net (sy_wallet s)"
    by (subst conjunct2 [OF coins], simp add: key)+
  have "follows (scan_coins sp k) new_block Map.empty chain' (utxos w)"
    unfolding chain'_def using inv new coins
    by (intro wallet_chain.follow_connect [of sp k chain "utxos (sy_wallet s)"]) (simp_all add: sync_inv_def)
  then show ?thesis
    using sync_inv_save [OF laws, where s = "?s\<lparr>sy_wallet := w\<rparr>" and saved = saved, OF _ _ _ _ _ w(2) step(2)]
      inv w' by (simp add: sync_inv_def)
qed

lemma sync_inv_undo:
  assumes laws: "scan_laws sp scalar_ok" and inv: "sync_inv sp scalar_ok store k s chain saved"
    and ev: "sy_events s = Disconnected block bh # es"
    and follow: "follows (scan_coins sp k) new_block Map.empty chain' (forget_block block (utxos (sy_wallet s)))"
    and step: "scan_round sp K fl store order s = Some s'" "enumerates order (dom (utxos (sy_wallet s')))"
  shows "sync_inv sp scalar_ok store k s' chain' (saved_chain fl store order (sy_fs s) s' chain' saved)"
proof -
  let ?s = "s\<lparr>sy_events := es, sy_wallet := process_disconnect block (sy_wallet s)\<rparr>"
  have "save_or_shutdown fl store order ?s = Some s'"
    using ev step(1) by (simp add: scan_round_def scan_disconnected_def)
  then show ?thesis
    using sync_inv_save [OF laws, where s = ?s and saved = saved, OF _ _ _ _ _ _ step(2)]
      sync_inv_take [OF inv ev] follow by (simp add: sync_inv_def process_disconnect_def)
qed

lemma sync_run_inv:
  assumes "sync_run sp K scalar_ok key_ok xonly_ok store k s chain saved" "scan_laws sp scalar_ok"
  shows "sync_inv sp scalar_ok store k s chain saved"
  using assms(1)
proof induction
  case (first_start fs kp s)
  then show ?case by (intro sync_inv_start [OF first_start(2,3)]) (simp add: disk_holds_def)
next
  case (restart s chain saved kp s')
  then show ?case by (intro sync_inv_start [OF restart.hyps(2,3)]) (simp add: sync_inv_def)
next
  case (connected s chain saved block h s')
  then show ?case
    by (cases "keys (sy_wallet s)") (auto simp: on_block_connected_def elim: send_event_inv)
next
  case (disconnected s chain saved block height s')
  then show ?case by (auto simp: on_block_disconnected_def elim: send_event_inv)
next
  case (scan s chain saved block h es height spents fl order s' chain')
  show ?case unfolding scan.hyps(8) by (rule sync_inv_scan [OF assms(2) scan.IH scan.hyps(2-7)])
next
  case (scan_failed s chain saved block h es e fl order s')
  then have "sync_trigger (s\<lparr>sy_events := es\<rparr>) = Some s'"
    by (auto simp: scan_round_def scan_connected_def split: option.splits)
  then show ?case using sync_inv_take [OF scan_failed.IH scan_failed.hyps(2)] by (rule sync_inv_trigger [rotated])
next
  case (undo s chain' block spents height saved bh es fl order s')
  show ?case
    using wallet_chain.follow_disconnect [of sp k chain' "(block, spents, height)"] undo.IH
    by (intro sync_inv_undo [OF assms(2) undo.IH undo.hyps(2) _ undo.hyps(3,4)]) (simp add: sync_inv_def)
next
  case (undo_unseen s chain saved block bh es fl order s')
  show ?case
    using wallet_chain.follow_unseen [of sp k chain "utxos (sy_wallet s)" "(block, [], 0)"] undo_unseen.IH undo_unseen.hyps(3)
    by (intro sync_inv_undo [OF assms(2) undo_unseen.IH undo_unseen.hyps(2) _ undo_unseen.hyps(4,5)]) (simp add: sync_inv_def)
next
  case (other s chain saved w f)
  then show ?case by (auto simp: sync_inv_def)
qed

section \<open>Properties\<close>


section \<open>Witnesses\<close>

definition demo_source :: "unit block_source" where
  "demo_source = \<lparr>tree_height = (\<lambda>h. Some 11), read_spent_outputs = (\<lambda>h. Inr [[demo_script 5]])\<rparr>"

definition demo_start :: "(unit, xonly, unit) sync_state" where
  "demo_start = \<lparr>sy_wallet = (wallet_new Regtest)\<lparr>keys := Some \<lparr>keys_receiver = (), keys_scan_key = 8\<rparr>, spend_key := Some 6,
     spend_secret := Some 6\<rparr>, sy_fs = [''keys'' \<mapsto> keys_to_bytes demo_keys_file], sy_fatal = fatal_new, sy_events = [], sy_open = True\<rparr>"

lemma demo_starts:
  "start_node demo_sp (\<lambda>x. x < 100) (\<lambda>k. k \<noteq> 0) (\<lambda>x. True) demo_store (Some ''keys'') (sy_fs demo_start) = Some demo_start"
proof -
  have "keys_load (\<lambda>k. k \<noteq> 0) (\<lambda>x. True) ''keys'' [''keys'' \<mapsto> keys_to_bytes demo_keys_file] = Inr demo_keys_file"
    by (simp add: keys_load_def fs_read_def keys_from_to_bytes [OF demo_keys_valid])
  then show ?thesis
    by (simp add: start_node_def initial_wallet_def store_exists_def demo_start_def demo_store_def auto_import_keys_def
        demo_keys_file_def import_signing_keys_def import_keys_def build_receiver_def demo_sp_def wallet_new_def)
qed

definition demo_found :: outpoint where "demo_found = \<lparr>op_txid = 3, op_vout = 1\<rparr>"

lemma demo_scanned:
  "\<exists>n w'. scan_block demo_sp demo_chain_block [[demo_script 5]] 11 (sy_wallet demo_start) = Some (n, w')
     \<and> dom (utxos w') = {demo_found}"
  by (simp add: scan_block_def scan_block_inner_def demo_start_def demo_chain_block_def scan_tx_def demo_sp_def parse_p2tr_def
     demo_script_def scan_transaction_def demo_op_def demo_found_def wallet_new_def outpoint_bytes_def)

lemma demo_scan_laws: "scan_laws demo_sp (\<lambda>x. x < 100)"
  by (auto simp: scan_laws_def demo_sp_def split: if_splits)


end
