(* ===== verification/Writer.thy ===== *)
theory Writer
  imports Connection
begin

text \<open>
  The handle of a connection's writer thread (crates/p2p/src/net.rs): requests go through an
  unbounded channel to the thread, which serves one per round.  The run of a writer composes
  the handle with the rounds of \<open>Connection\<close>, and requests may come between any two rounds.
\<close>

section \<open>The handle\<close>

text \<open>
  \<open>cw_receiver\<close>: the thread still receives; \<open>cw_sender\<close>: a handle still exists;
  \<open>cw_result\<close>: what the thread returned, once it has ended.
\<close>

record 'tx connection_writer =
  cw_requests :: "'tx write_request list"
  cw_receiver :: bool
  cw_sender :: bool
  cw_result :: "io_error option option"

definition writer_new :: "'tx connection_writer" where
  "writer_new = \<lparr>cw_requests = [], cw_receiver = True, cw_sender = True, cw_result = None\<rparr>"

definition send_request :: "'tx write_request \<Rightarrow> 'tx connection_writer \<Rightarrow> net_error + 'tx connection_writer" where
  "send_request r wh =
     (if cw_receiver wh then Inr (wh\<lparr>cw_requests := cw_requests wh @ [r]\<rparr>) else Inl ChannelClosed)"

definition send_message :: "'tx network_message \<Rightarrow> 'tx connection_writer \<Rightarrow> net_error + 'tx connection_writer" where
  "send_message m wh = send_request (SendMessage m) wh"

definition shutdown_writer :: "'tx connection_writer \<Rightarrow> net_error + 'tx connection_writer" where
  "shutdown_writer wh = send_request Shutdown wh"

text \<open>Taking the errors consumes the handle and waits for the thread; \<open>None\<close> is the wait.\<close>

definition take_errors :: "'tx connection_writer \<Rightarrow> io_error option option" where
  "take_errors wh = cw_result wh"

text \<open>Dropping the handle disconnects the channel.\<close>

definition drop_writer :: "'tx connection_writer \<Rightarrow> 'tx connection_writer" where
  "drop_writer wh = wh\<lparr>cw_sender := False\<rparr>"

definition recv_request :: "'tx connection_writer \<Rightarrow> 'tx received \<times> 'tx connection_writer" where
  "recv_request wh =
     (case cw_requests wh of
        r # rs \<Rightarrow> (Request r, wh\<lparr>cw_requests := rs\<rparr>)
      | [] \<Rightarrow> (if cw_sender wh then RecvTimeout else Disconnected, wh))"

text \<open>A round of the thread: it receives a request or times out, and serves it.\<close>

definition maintain_round ::
    "'tx wire \<Rightarrow> magic \<Rightarrow> (tcp_stream \<Rightarrow> io_error + tcp_stream) \<Rightarrow> duration \<Rightarrow> instant \<Rightarrow> u64
       \<Rightarrow> 'tx connection_writer \<times> tcp_stream \<times> outbound_ping \<Rightarrow> 'tx connection_writer \<times> (tcp_stream \<times> outbound_ping) option" where
  "maintain_round w mg shut interval now nonce st =
     (case st of (wh, s, ping) \<Rightarrow>
      case recv_request wh of (msg, wh') \<Rightarrow>
      case writer_round w mg shut interval msg now nonce (s, ping) of
        Running st' \<Rightarrow> (wh', Some st')
      | Stopped e \<Rightarrow> (wh'\<lparr>cw_requests := [], cw_receiver := False, cw_result := Some e\<rparr>, None))"

section \<open>Runs\<close>

text \<open>
  The run of a writer from an open stream: the messages accepted by the handle so far, and
  the pings of the thread.
\<close>

inductive writer_run ::
    "'tx wire \<Rightarrow> magic \<Rightarrow> (tcp_stream \<Rightarrow> io_error + tcp_stream) \<Rightarrow> duration \<Rightarrow> tcp_stream
       \<Rightarrow> 'tx connection_writer \<Rightarrow> tcp_stream \<Rightarrow> outbound_ping \<Rightarrow> 'tx network_message list \<Rightarrow> bool"
  for w mg shut interval s0 where
  opened: "writer_run w mg shut interval s0 writer_new s0 ping []"
| send: "writer_run w mg shut interval s0 wh s ping accepted \<Longrightarrow> send_message m wh = Inr wh' \<Longrightarrow>
     writer_run w mg shut interval s0 wh' s ping (accepted @ [m])"
| close: "writer_run w mg shut interval s0 wh s ping accepted \<Longrightarrow> shutdown_writer wh = Inr wh' \<Longrightarrow>
     writer_run w mg shut interval s0 wh' s ping accepted"
| dropped: "writer_run w mg shut interval s0 wh s ping accepted \<Longrightarrow>
     writer_run w mg shut interval s0 (drop_writer wh) s ping accepted"
| round: "writer_run w mg shut interval s0 wh s ping accepted \<Longrightarrow>
     maintain_round w mg shut interval now nonce (wh, s, ping) = (wh', Some (s', ping')) \<Longrightarrow>
     writer_run w mg shut interval s0 wh' s' ping' accepted"
| pong: "writer_run w mg shut interval s0 wh s ping accepted \<Longrightarrow> writer_run w mg shut interval s0 wh s ping' accepted"

definition pending :: "'tx connection_writer \<Rightarrow> 'tx network_message list" where
  "pending wh = concat (map (\<lambda>r. case r of SendMessage m \<Rightarrow> [m] | Shutdown \<Rightarrow> []) (cw_requests wh))"

lemma send_request_pending:
  "send_request r wh = Inr wh' \<Longrightarrow> pending wh' = pending wh @ (case r of SendMessage m \<Rightarrow> [m] | Shutdown \<Rightarrow> [])"
  by (auto simp: send_request_def pending_def split: if_splits)

lemma write_message_outgoing:
  "write_message w mg m s = Inr s' \<Longrightarrow> outgoing s' = outgoing s @ enc_raw w mg m"
  by (auto simp: write_message_def tcp_write_all_def split: option.splits if_splits)

text \<open>What a round writes: the message it received, then perhaps a ping.\<close>

lemma writer_round_outgoing:
  assumes "writer_round w mg shut interval msg now nonce (s, ping) = Running (s', ping')"
    and shut: "\<And>s s'. shut s = Inr s' \<Longrightarrow> outgoing s' = outgoing s"
  shows "\<exists>pings. pings \<in> {[], [Ping nonce]}
     \<and> outgoing s' = outgoing s @ concat (map (enc_raw w mg) ((case msg of Request (SendMessage m) \<Rightarrow> [m] | _ \<Rightarrow> []) @ pings))"
proof -
  obtain s1 where s1: "outgoing s1 = outgoing s @ concat (map (enc_raw w mg) (case msg of Request (SendMessage m) \<Rightarrow> [m] | _ \<Rightarrow> []))"
    and ping: "s' = s1 \<or> write_message w mg (Ping nonce) s1 = Inr s'"
    using assms(1) shut
    by (fastforce simp: writer_round_def Let_def dest: write_message_outgoing
        split: received.splits write_request.splits sum.splits option.splits outbound_ping.splits if_splits)
  from ping show ?thesis
  proof
    assume "s' = s1"
    then show ?thesis using s1 by (intro exI [of _ "[]"]) simp
  next
    assume "write_message w mg (Ping nonce) s1 = Inr s'"
    then show ?thesis using s1 write_message_outgoing by (intro exI [of _ "[Ping nonce]"]) fastforce
  qed
qed

text \<open>
  The written messages, each tagged with whether it was requested: the requested ones and
  those still in the channel are the accepted ones, in order.
\<close>

definition written_in_order ::
    "'tx wire \<Rightarrow> magic \<Rightarrow> tcp_stream \<Rightarrow> 'tx connection_writer \<Rightarrow> tcp_stream \<Rightarrow> 'tx network_message list
       \<Rightarrow> (bool \<times> 'tx network_message) list \<Rightarrow> bool" where
  "written_in_order w mg s0 wh s accepted trace \<longleftrightarrow>
     outgoing s = outgoing s0 @ concat (map (enc_raw w mg \<circ> snd) trace)
     \<and> accepted = map snd (filter fst trace) @ pending wh
     \<and> (\<forall>(requested, m) \<in> set trace. requested \<or> (\<exists>nonce. m = Ping nonce))"

lemma recv_request_pending:
  "recv_request wh = (msg, wh') \<Longrightarrow>
     pending wh = (case msg of Request (SendMessage m) \<Rightarrow> [m] | _ \<Rightarrow> []) @ pending wh'"
  by (auto simp: recv_request_def pending_def split: list.splits write_request.splits if_splits)

lemma written_round:
  assumes "written_in_order w mg s0 wh s accepted trace"
    and "maintain_round w mg shut interval now nonce (wh, s, ping) = (wh', Some (s', ping'))"
    and "\<And>s s'. shut s = Inr s' \<Longrightarrow> outgoing s' = outgoing s"
  shows "\<exists>trace'. written_in_order w mg s0 wh' s' accepted trace'"
proof -
  obtain msg where msg: "recv_request wh = (msg, wh')"
    "writer_round w mg shut interval msg now nonce (s, ping) = Running (s', ping')"
    using assms(2) by (auto simp: maintain_round_def split: prod.splits writer_outcome.splits)
  let ?ms = "case msg of Request (SendMessage m) \<Rightarrow> [m] | _ \<Rightarrow> []"
  obtain pings where pings: "pings \<in> {[], [Ping nonce]}"
    "outgoing s' = outgoing s @ concat (map (enc_raw w mg) (?ms @ pings))"
    using writer_round_outgoing [OF msg(2) assms(3)] by blast
  have "written_in_order w mg s0 wh' s' accepted (trace @ map (Pair True) ?ms @ map (Pair False) pings)"
    using assms(1) pings recv_request_pending [OF msg(1)]
    by (auto simp: written_in_order_def comp_def filter_map)
  then show ?thesis by blast
qed

section \<open>Properties\<close>

text \<open>
  C21: The writer loses and reorders nothing.  However requests, rounds of the thread and
  pongs interleave, as long as the thread runs the stream has received, besides pings of the thread itself, exactly the
  accepted messages in the order they were accepted, up to those still in the channel.
\<close>

theorem writer_fifo:
  assumes "writer_run w mg shut interval s0 wh s ping accepted"
    and "\<And>s s'. shut s = Inr s' \<Longrightarrow> outgoing s' = outgoing s"
  shows "\<exists>trace. outgoing s = outgoing s0 @ concat (map (enc_raw w mg \<circ> snd) trace)
     \<and> accepted = map snd (filter fst trace) @ pending wh
     \<and> (\<forall>(requested, m) \<in> set trace. requested \<or> (\<exists>nonce. m = Ping nonce))"
proof -
  have "\<exists>trace. written_in_order w mg s0 wh s accepted trace"
    using assms(1)
  proof induction
    case (opened ping)
    then show ?case by (intro exI [of _ "[]"]) (simp add: written_in_order_def writer_new_def pending_def)
  next
    case (send wh s ping accepted m wh')
    then show ?case by (auto simp: written_in_order_def send_message_def dest!: send_request_pending)
  next
    case (close wh s ping accepted wh')
    then show ?case by (auto simp: written_in_order_def shutdown_writer_def dest!: send_request_pending)
  next
    case (dropped wh s ping accepted)
    then show ?case by (simp add: written_in_order_def drop_writer_def pending_def)
  next
    case (round wh s ping accepted now nonce wh' s' ping')
    then show ?case using written_round [OF _ round.hyps(2) assms(2)] by blast
  qed
  then show ?thesis unfolding written_in_order_def .
qed

section \<open>Witnesses\<close>

theorem writer_fifo_witness:
  "\<exists>wh s. writer_run demo_wire 7 Inr 10 (demo_stream []) wh s (LastReceived 5) [Verack]
     \<and> (\<exists>trace. outgoing s = concat (map (enc_raw demo_wire 7 \<circ> snd) trace)
          \<and> [Verack] = map snd (filter fst trace) @ pending wh)"
proof -
  let ?s = "demo_stream []\<lparr>outgoing := enc_raw demo_wire 7 Verack\<rparr>"
  let ?wh = "writer_new\<lparr>cw_requests := [SendMessage Verack]\<rparr> :: unit connection_writer"
  have "writer_run demo_wire 7 Inr 10 (demo_stream []) ?wh (demo_stream []) (LastReceived 5) ([] @ [Verack])"
    by (rule writer_run.send [OF writer_run.opened]) (simp add: send_message_def send_request_def writer_new_def)
  moreover have "maintain_round demo_wire 7 Inr 10 6 0 (?wh, demo_stream [], LastReceived 5)
      = (writer_new, Some (?s, LastReceived 5))"
    by (simp add: maintain_round_def recv_request_def writer_round_def write_message_def tcp_write_all_def
        demo_stream_def writer_new_def)
  ultimately have run: "writer_run demo_wire 7 Inr 10 (demo_stream []) writer_new ?s (LastReceived 5) [Verack]"
    using writer_run.round by fastforce
  from writer_fifo [OF run] have "\<exists>trace. outgoing ?s = outgoing (demo_stream []) @ concat (map (enc_raw demo_wire 7 \<circ> snd) trace)
      \<and> [Verack] = map snd (filter fst trace) @ pending (writer_new :: unit connection_writer)" by blast
  then show ?thesis using run by (intro exI [of _ writer_new] exI [of _ ?s]) (simp add: demo_stream_def)
qed

end
