(* ===== verification/Node.thy ===== *)
theory Node
  imports Manager Writer Address_Book_IO Wallet
begin

text \<open>
  Starting the node and the threads that feed it (src/bin/node.rs, src/ext.rs,
  src/net/addr.rs, crates/p2p/src/dns.rs): the networks, the parser of \<open>--connect\<close>
  with the parser of socket addresses it uses, the DNS seeds, the first address book, and the
  threads that process gossiped addresses and downloaded blocks.  Text is ASCII.  The scope
  of an IPv6 socket address is not kept, since the node reads only its address and port.
\<close>

section \<open>Networks\<close>

datatype chain_kind = MainnetChain | SignetChain | TestnetChain | Testnet4Chain | RegtestChain

definition chain_type :: "network \<Rightarrow> chain_kind" where
  "chain_type n =
     (case n of
        network.Bitcoin \<Rightarrow> MainnetChain | network.Signet \<Rightarrow> SignetChain | network.Testnet \<Rightarrow> TestnetChain
      | network.Testnet4 \<Rightarrow> Testnet4Chain | network.Regtest \<Rightarrow> RegtestChain)"

definition default_p2p_port :: "network \<Rightarrow> u16" where
  "default_p2p_port n =
     (case n of
        network.Bitcoin \<Rightarrow> 8333 | network.Signet \<Rightarrow> 38333 | network.Testnet \<Rightarrow> 18333
      | network.Testnet4 \<Rightarrow> 48333 | network.Regtest \<Rightarrow> 18444)"

definition to_wallet_network :: "network \<Rightarrow> wallet_network" where
  "to_wallet_network n =
     (case n of
        network.Bitcoin \<Rightarrow> wallet_network.Mainnet
      | network.Regtest \<Rightarrow> wallet_network.Regtest
      | _ \<Rightarrow> wallet_network.Testnet)"

section \<open>Socket addresses as text\<close>

text \<open>
  The parser of the standard library: every function takes the text that is left and returns
  a value and the rest, or \<open>None\<close>.
\<close>

definition digit_of :: "nat \<Rightarrow> char \<Rightarrow> nat option" where
  "digit_of radix ch =
     (let n = of_char ch :: nat;
          d = (if 48 \<le> n \<and> n < 58 then n - 48 else if 97 \<le> n \<and> n < 123 then n - 87
               else if 65 \<le> n \<and> n < 91 then n - 55 else radix) in
      if d < radix then Some d else None)"

definition read_number :: "nat \<Rightarrow> nat option \<Rightarrow> bool \<Rightarrow> nat \<Rightarrow> string \<Rightarrow> (nat \<times> string) option" where
  "read_number radix max_digits allow_zero_prefix limit s =
     (let ds = takeWhile (\<lambda>ch. digit_of radix ch \<noteq> None) s;
          v = foldl (\<lambda>acc ch. acc * radix + the (digit_of radix ch)) 0 ds in
      if ds = [] \<or> (\<exists>m \<in> set_option max_digits. m < length ds)
         \<or> (\<not> allow_zero_prefix \<and> hd ds = CHR ''0'' \<and> 1 < length ds) \<or> limit < v
      then None else Some (v, drop (length ds) s))"

definition read_given_char :: "char \<Rightarrow> string \<Rightarrow> string option" where
  "read_given_char ch s = (case s of c # cs \<Rightarrow> if c = ch then Some cs else None | [] \<Rightarrow> None)"

definition read_separator :: "char \<Rightarrow> bool \<Rightarrow> string \<Rightarrow> string option" where
  "read_separator sep first s = (if first then Some s else read_given_char sep s)"

fun read_octets :: "nat \<Rightarrow> bool \<Rightarrow> string \<Rightarrow> (u8 list \<times> string) option" where
  "read_octets 0 first s = Some ([], s)"
| "read_octets (Suc n) first s =
     Option.bind (read_separator CHR ''.'' first s) (\<lambda>s.
     Option.bind (read_number 10 (Some 3) False 255 s) (\<lambda>(v, s).
     Option.bind (read_octets n False s) (\<lambda>(vs, s). Some (word_of_nat v # vs, s))))"

definition read_ipv4_addr :: "string \<Rightarrow> (u8 list \<times> string) option" where
  "read_ipv4_addr s = read_octets 4 True s"

text \<open>Up to \<open>n\<close> groups of 16 bits; the last two may be an embedded IPv4 address.\<close>

fun read_groups :: "nat \<Rightarrow> bool \<Rightarrow> string \<Rightarrow> u16 list \<times> bool \<times> string" where
  "read_groups 0 first s = ([], False, s)"
| "read_groups (Suc n) first s =
     (case (if 0 < n then Option.bind (read_separator CHR '':'' first s) read_ipv4_addr else None) of
        Some (v4, s') \<Rightarrow> ([from_be_bytes (take 2 v4), from_be_bytes (drop 2 v4)], True, s')
      | None \<Rightarrow>
          (case Option.bind (read_separator CHR '':'' first s) (read_number 16 (Some 4) True 65535) of
             None \<Rightarrow> ([], False, s)
           | Some (g, s') \<Rightarrow>
               (case read_groups n False s' of (gs, v4, s'') \<Rightarrow> (word_of_nat g # gs, v4, s''))))"

definition read_ipv6_addr :: "string \<Rightarrow> (u8 list \<times> string) option" where
  "read_ipv6_addr s =
     (case read_groups 8 True s of (head, v4, s) \<Rightarrow>
        if length head = 8 then Some (concat (map to_be_bytes head), s)
        else if v4 then None
        else
          Option.bind (read_given_char CHR '':'' s) (\<lambda>s.
          Option.bind (read_given_char CHR '':'' s) (\<lambda>s.
            case read_groups (8 - (length head + 1)) True s of (tail, _, s) \<Rightarrow>
              Some (concat (map to_be_bytes (head @ replicate (8 - length head - length tail) 0 @ tail)), s))))"

definition read_port :: "string \<Rightarrow> (u16 \<times> string) option" where
  "read_port s =
     Option.bind (read_given_char CHR '':'' s) (\<lambda>s.
     Option.bind (read_number 10 None True 65535 s) (\<lambda>(v, s). Some (word_of_nat v, s)))"

definition read_scope_id :: "string \<Rightarrow> string" where
  "read_scope_id s =
     (case Option.bind (read_given_char CHR ''%'' s) (read_number 10 None True (2 ^ 32 - 1)) of
        Some (_, s') \<Rightarrow> s'
      | None \<Rightarrow> s)"

definition read_socket_addr_v4 :: "string \<Rightarrow> ((ip_addr \<times> u16) \<times> string) option" where
  "read_socket_addr_v4 s =
     Option.bind (read_ipv4_addr s) (\<lambda>(ip, s).
     Option.bind (read_port s) (\<lambda>(p, s). Some ((V4 ip, p), s)))"

definition read_socket_addr_v6 :: "string \<Rightarrow> ((ip_addr \<times> u16) \<times> string) option" where
  "read_socket_addr_v6 s =
     Option.bind (read_given_char CHR ''['' s) (\<lambda>s.
     Option.bind (read_ipv6_addr s) (\<lambda>(ip, s).
     Option.bind (read_given_char CHR '']'' (read_scope_id s)) (\<lambda>s.
     Option.bind (read_port s) (\<lambda>(p, s). Some ((V6 ip, p), s)))))"

definition parse_socket_addr :: "string \<Rightarrow> (ip_addr \<times> u16) option" where
  "parse_socket_addr s =
     (case (case read_socket_addr_v4 s of Some r \<Rightarrow> Some r | None \<Rightarrow> read_socket_addr_v6 s) of
        Some (a, []) \<Rightarrow> Some a
      | _ \<Rightarrow> None)"

section \<open>The connect option\<close>

definition is_whitespace :: "char \<Rightarrow> bool" where
  "is_whitespace ch \<longleftrightarrow> (let n = of_char ch :: nat in n = 32 \<or> 9 \<le> n \<and> n \<le> 13)"

definition trim :: "string \<Rightarrow> string" where
  "trim s = rev (dropWhile is_whitespace (rev (dropWhile is_whitespace s)))"

text \<open>\<open>str::split\<close>: the pieces between the separators, at least one.\<close>

fun split_at_char :: "char \<Rightarrow> string \<Rightarrow> string list" where
  "split_at_char sep [] = [[]]"
| "split_at_char sep (c # cs) =
     (if c = sep then [] # split_at_char sep cs
      else (case split_at_char sep cs of p # ps \<Rightarrow> (c # p) # ps | [] \<Rightarrow> [[c]]))"

definition join_connect :: "string \<Rightarrow> string \<Rightarrow> string" where
  "join_connect peers next = peers @ '','' @ next"

text \<open>Collecting stops at the first piece that does not parse, which is the error.\<close>

fun collect_addrs :: "string list \<Rightarrow> string + (ip_addr \<times> u16) list" where
  "collect_addrs [] = Inr []"
| "collect_addrs (a # as) =
     (case parse_socket_addr (trim a) of
        None \<Rightarrow> Inl a
      | Some sa \<Rightarrow> rbind (collect_addrs as) (\<lambda>sas. Inr (sa # sas)))"

definition parse_connect :: "string option \<Rightarrow> string + (ip_addr \<times> u16) list" where
  "parse_connect connect =
     collect_addrs (case connect of None \<Rightarrow> [] | Some list \<Rightarrow> split_at_char CHR '','' list)"

section \<open>Seeds and the first address book\<close>

definition seed_hosts :: "network \<Rightarrow> string list" where
  "seed_hosts n =
     (case n of
        network.Bitcoin \<Rightarrow>
          [''seed.bitcoin.sipa.be'', ''dnsseed.bluematt.me'', ''dnsseed.bitcoin.dashjr-list-of-p2p-nodes.us'',
           ''seed.bitcoin.jonasschnelli.ch'', ''seed.btc.petertodd.net'', ''seed.bitcoin.sprovoost.nl'',
           ''dnsseed.emzy.de'', ''seed.bitcoin.wiz.biz'', ''seed.mainnet.achownodes.xyz'']
      | network.Signet \<Rightarrow> [''seed.signet.bitcoin.sprovoost.nl'', ''seed.signet.achownodes.xyz'']
      | network.Testnet \<Rightarrow>
          [''testnet-seed.bitcoin.jonasschnelli.ch'', ''seed.tbtc.petertodd.net'', ''seed.testnet.bitcoin.sprovoost.nl'',
           ''testnet-seed.bluematt.me'', ''seed.testnet.achownodes.xyz'']
      | network.Testnet4 \<Rightarrow> [''seed.testnet4.bitcoin.sprovoost.nl'', ''seed.testnet4.wiz.biz'']
      | network.Regtest \<Rightarrow> [])"

text \<open>\<open>lookup\<close> is the resolver: the addresses of a host and port, or a failure.\<close>

definition resolve_seeds :: "(string \<Rightarrow> ip_addr list option) \<Rightarrow> network \<Rightarrow> ip_addr list" where
  "resolve_seeds lookup n =
     concat (map (\<lambda>host. case lookup (host @ '':53'') of Some ips \<Rightarrow> ips | None \<Rightarrow> []) (seed_hosts n))"

definition dns_resolver :: ip_addr where "dns_resolver = V4 [1, 1, 1, 1]"

definition network_service :: u64 where "network_service = 1"

definition seed_record :: "table_cfg \<Rightarrow> ip_addr \<times> u16 \<Rightarrow> peer_record" where
  "seed_record c sa =
     (case sa of
        (V4 ip, p) \<Rightarrow> record_new c (Ipv4 ip) p network_service dns_resolver
      | (V6 ip, p) \<Rightarrow> record_new c (Ipv6 ip) p network_service dns_resolver)"

fun add_seeds :: "table_cfg \<Rightarrow> (ip_addr \<times> u16) list \<Rightarrow> table \<Rightarrow> table" where
  "add_seeds c [] t = t"
| "add_seeds c (sa # sas) t = add_seeds c sas (fst (table_add c t (seed_record c sa)))"

definition initial_table ::
    "(hash_key \<Rightarrow> u64) \<Rightarrow> (u8 list \<Rightarrow> string + addr_v2 \<times> nat) \<Rightarrow> (string \<Rightarrow> ip_addr list option) \<Rightarrow> network
       \<Rightarrow> (ip_addr \<times> u16) list \<Rightarrow> path \<Rightarrow> file_system \<Rightarrow> table" where
  "initial_table h dec lookup n connect peers_file fs =
     (let c = addr_table_cfg h in
      if connect \<noteq> [] then add_seeds c connect (table_new c)
      else
        (let t = addr_table_load h dec peers_file fs in
         if table_is_empty t
         then add_seeds c (map (\<lambda>ip. (ip, default_p2p_port n)) (resolve_seeds lookup n)) t
         else t))"

text \<open>With \<open>--connect\<close> there is one peer thread per address and no peers file.\<close>

definition manager_peers :: "(ip_addr \<times> u16) list \<Rightarrow> nat" where
  "manager_peers connect = (if connect = [] then default_max_peers else set_max_peers (length connect))"

definition manager_peers_file :: "(ip_addr \<times> u16) list \<Rightarrow> path \<Rightarrow> path option" where
  "manager_peers_file connect peers_file = (if connect = [] then Some peers_file else None)"

section \<open>Threads\<close>

text \<open>One message of the address thread: the peer it came from and the addresses.\<close>

fun process_addrs :: "table_cfg \<Rightarrow> addr_v2 \<Rightarrow> addr_v2_message list \<Rightarrow> table \<Rightarrow> table" where
  "process_addrs c src [] t = t"
| "process_addrs c src (a # as) t =
     (case am_addr a of
        Unknown _ _ \<Rightarrow> process_addrs c src as t
      | _ \<Rightarrow>
          process_addrs c src as
            (fst (table_add c t (new_from_addrv2_source c (am_addr a) (am_port a) (am_services a) src))))"

definition stale_block_duration :: duration where
  "stale_block_duration = from_secs (60 * 20)"

text \<open>The slots of the peer threads with the writers of their connections; a failed request is ignored.\<close>

definition shutdown_slot :: "'tx connection_writer option \<Rightarrow> 'tx connection_writer option" where
  "shutdown_slot slot = map_option (\<lambda>wh. case shutdown_writer wh of Inr wh' \<Rightarrow> wh' | Inl _ \<Rightarrow> wh) slot"

definition manager_stop ::
    "bool \<times> 'tx connection_writer option list \<Rightarrow> bool \<times> 'tx connection_writer option list" where
  "manager_stop st = (case st of (running, slots) \<Rightarrow> (False, map shutdown_slot slots))"

text \<open>
  A round of the block thread: a connectable block is validated; without one for too long all
  peers are dropped.  \<open>now\<close> is the time after the wait.
\<close>

definition block_round ::
    "('c, 'e, 'tx, 'b) kernel \<Rightarrow> ('b \<Rightarrow> 'c \<Rightarrow> 'c) \<Rightarrow> block_hash list \<Rightarrow> block_hash list \<Rightarrow> instant \<Rightarrow> ('c, 'b) node_state
       \<Rightarrow> ('c, 'b) node_state \<Rightarrow> instant \<times> 'tx connection_writer option list
       \<Rightarrow> instant \<times> 'tx connection_writer option list \<times> ('c, 'b) node_state" where
  "block_round K process_block order order' now ns woken st =
     (case st of (last_seen, slots) \<Rightarrow>
      case wait_for_connectable K order order' ns woken of
        (Some block, ns') \<Rightarrow> (now, slots, ns'\<lparr>chainman := process_block block (chainman ns')\<rparr>)
      | (None, ns') \<Rightarrow>
          (if now - last_seen > stale_block_duration then (now, map shutdown_slot slots, ns')
           else (last_seen, slots, ns')))"

section \<open>The address book of the node\<close>

lemma read_records_reachable:
  "read_records c dec n t bs = Inr t' \<Longrightarrow> table_reachable c t \<Longrightarrow> table_reachable c t'"
  by (induction c dec n t bs rule: read_records.induct) (auto simp: rbind_Inr_iff table_reachable.add)

lemma addr_table_load_reachable: "table_reachable (addr_table_cfg h) (addr_table_load h dec p fs)"
  by (auto simp: addr_table_load_def read_table_def rbind_Inr_iff table_reachable.new
      intro: read_records_reachable split: sum.split)

lemma add_seeds_reachable: "table_reachable c t \<Longrightarrow> table_reachable c (add_seeds c sas t)"
  by (induction sas arbitrary: t) (auto intro: table_reachable.add)

lemma process_addrs_reachable: "table_reachable c t \<Longrightarrow> table_reachable c (process_addrs c src as t)"
  by (induction as arbitrary: t) (auto intro: table_reachable.add split: addr_v2.split)

text \<open>The table from the start of the node through gossip and the reports of peer threads.\<close>

inductive node_book ::
    "(hash_key \<Rightarrow> u64) \<Rightarrow> (u8 list \<Rightarrow> string + addr_v2 \<times> nat) \<Rightarrow> (string \<Rightarrow> ip_addr list option) \<Rightarrow> table \<Rightarrow> bool"
  for h dec lookup where
  start: "node_book h dec lookup (initial_table h dec lookup n connect peers_file fs)"
| gossip: "node_book h dec lookup t \<Longrightarrow> node_book h dec lookup (process_addrs (addr_table_cfg h) src payload t)"
| success: "node_book h dec lookup t \<Longrightarrow>
     node_book h dec lookup (table_successful_connection (addr_table_cfg h) now1 now2 t r)"
| failure: "node_book h dec lookup t \<Longrightarrow> node_book h dec lookup (table_failed_connection (addr_table_cfg h) now t r)"
| remove: "node_book h dec lookup t \<Longrightarrow> node_book h dec lookup (table_remove (addr_table_cfg h) t r)"

lemma node_book_reachable: "node_book h dec lookup t \<Longrightarrow> table_reachable (addr_table_cfg h) t"
  by (induction rule: node_book.induct)
    (auto simp: initial_table_def Let_def intro: table_reachable.intros add_seeds_reachable process_addrs_reachable
      addr_table_load_reachable)

definition unknown_addr :: "addr_v2 \<Rightarrow> bool" where
  "unknown_addr a \<longleftrightarrow> (case a of Unknown _ _ \<Rightarrow> True | _ \<Rightarrow> False)"

lemma process_addrs_step:
  "process_addrs c src (a # as) t = process_addrs c src as
     (if unknown_addr (am_addr a) then t
      else fst (table_add c t (new_from_addrv2_source c (am_addr a) (am_port a) (am_services a) src)))"
  by (simp add: unknown_addr_def split: addr_v2.split)

lemma table_add_keeps:
  assumes "table_inv c t"
  shows "table_look c t \<subseteq>\<^sub>m table_look c (fst (table_add c t r))"
    and "table_look c (fst (table_add c t r)) k = Some q \<Longrightarrow> table_look c t k = Some q \<or> q = r"
  using table_store.ins_free [OF assms, of r] table_store.ins_conflict [OF assms, of r]
  by (cases "table_look c t (table_key c r)"; auto simp: map_le_def split: if_splits)+

lemma process_addrs_look:
  assumes "table_inv c t"
  shows "table_look c t \<subseteq>\<^sub>m table_look c (process_addrs c src as t)
     \<and> (\<forall>k r. table_look c (process_addrs c src as t) k = Some r \<longrightarrow> table_look c t k = Some r
          \<or> (\<exists>a \<in> set as. \<not> unknown_addr (am_addr a)
               \<and> r = new_from_addrv2_source c (am_addr a) (am_port a) (am_services a) src))"
  using assms
proof (induction as arbitrary: t)
  case (Cons a as)
  let ?r = "new_from_addrv2_source c (am_addr a) (am_port a) (am_services a) src"
  let ?t = "if unknown_addr (am_addr a) then t else fst (table_add c t ?r)"
  have inv: "table_inv c ?t" using Cons.prems by (simp add: table_store.inv_ins)
  have step: "table_look c t \<subseteq>\<^sub>m table_look c ?t"
    "\<And>k q. table_look c ?t k = Some q \<Longrightarrow> table_look c t k = Some q \<or> \<not> unknown_addr (am_addr a) \<and> q = ?r"
    using table_add_keeps [OF Cons.prems, of ?r] by (auto split: if_splits)
  note IH = conjunct1 [OF Cons.IH [OF inv]] conjunct2 [OF Cons.IH [OF inv], rule_format]
  show ?case unfolding process_addrs_step
  proof (intro conjI allI impI)
    show "table_look c t \<subseteq>\<^sub>m table_look c (process_addrs c src as ?t)"
      by (rule map_le_trans [OF step(1) IH(1)])
  next
    fix k r assume "table_look c (process_addrs c src as ?t) k = Some r"
    from IH(2) [OF this] show "table_look c t k = Some r \<or> (\<exists>b \<in> set (a # as). \<not> unknown_addr (am_addr b)
        \<and> r = new_from_addrv2_source c (am_addr b) (am_port b) (am_services b) src)"
    proof
      assume "table_look c ?t k = Some r"
      from step(2) [OF this] show ?thesis by (elim disjE) (intro disjI1, assumption, intro disjI2, simp)
    qed (intro disjI2, simp)
  qed
qed simp

section \<open>Printed addresses are parsed back\<close>

definition show_socket_v4 :: "u8 list \<times> u16 \<Rightarrow> string" where
  "show_socket_v4 sa =
     (case sa of (octets, p) \<Rightarrow>
        decimal (unat (octets ! 0)) @ ''.'' @ decimal (unat (octets ! 1)) @ ''.'' @ decimal (unat (octets ! 2))
          @ ''.'' @ decimal (unat (octets ! 3)) @ '':'' @ decimal (unat p))"

lemma digit_of_char: "d < 10 \<Longrightarrow> digit_of 10 (char_of (48 + d)) = Some d"
  by (simp add: digit_of_def of_char_of Let_def)

lemma decimal_digits: "ch \<in> set (decimal n) \<Longrightarrow> \<exists>d < (10 :: nat). ch = char_of (48 + d)"
proof (induction n rule: decimal.induct)
  case (1 n)
  show ?case
  proof (cases "n < 10")
    case True
    then show ?thesis using 1(2) by (auto simp: decimal.simps [of n])
  next
    case False
    then have "ch \<in> set (decimal (n div 10)) \<or> ch = char_of (48 + n mod 10)"
      using 1(2) by (auto simp: decimal.simps [of n])
    moreover have "n mod 10 < 10" by simp
    ultimately show ?thesis using 1(1) [OF False] by blast
  qed
qed

lemma decimal_value:
  "foldl (\<lambda>acc ch. acc * 10 + the (digit_of 10 ch)) 0 (decimal n) = n"
proof (induction n rule: decimal.induct)
  case (1 n)
  then show ?case by (cases "n < 10") (simp_all add: decimal.simps [of n] digit_of_char)
qed

lemma decimal_length: "n < 10 ^ k \<Longrightarrow> 0 < k \<Longrightarrow> length (decimal n) \<le> k"
proof (induction n arbitrary: k rule: decimal.induct)
  case (1 n)
  show ?case
  proof (cases "n < 10")
    case False
    then obtain j where j: "k = Suc j" "0 < j" using 1(2,3) by (cases k; cases "k - 1") auto
    have "n div 10 < 10 ^ j" using 1(2) j(1) by (simp add: less_mult_imp_div_less mult.commute)
    from 1(1) [OF False this j(2)] show ?thesis using False j(1) by (simp add: decimal.simps [of n])
  qed (use 1(3) in \<open>simp add: decimal.simps [of n]\<close>)
qed

lemma decimal_nonempty [simp]: "decimal n \<noteq> []"
  by (simp add: decimal.simps [of n])

lemma decimal_head: "0 < n \<Longrightarrow> hd (decimal n) \<noteq> CHR ''0''"
proof (induction n rule: decimal.induct)
  case (1 n)
  show ?case
  proof (cases "n < 10")
    case True
    then have "of_char (char_of (48 + n) :: char) = 48 + n" by (simp add: of_char_of)
    then have "of_char (hd (decimal n)) \<noteq> (of_char CHR ''0'' :: nat)" using 1(2) True by (simp add: decimal.simps [of n])
    then show ?thesis by metis
  next
    case False
    then show ?thesis using 1(1) by (simp add: decimal.simps [of n])
  qed
qed

lemma decimal_leading_zero: "1 < length (decimal n) \<Longrightarrow> hd (decimal n) \<noteq> CHR ''0''"
  by (cases "n = 0") (simp_all add: decimal_head decimal.simps [of 0])

lemma read_number_decimal:
  assumes "n \<le> limit" "\<And>m. max_digits = Some m \<Longrightarrow> 0 < m \<and> n < 10 ^ m"
    and "rest = [] \<or> digit_of 10 (hd rest) = None"
  shows "read_number 10 max_digits zero limit (decimal n @ rest) = Some (n, rest)"
proof -
  have "takeWhile (\<lambda>ch. digit_of 10 ch \<noteq> None) (decimal n @ rest) = decimal n"
    using assms(3) decimal_digits [of _ n] digit_of_char
    by (subst takeWhile_append2) (fastforce simp: takeWhile_eq_Nil_iff)+
  then show ?thesis
    using assms(1,2) decimal_length [of n] decimal_leading_zero [of n]
    by (auto simp: read_number_def Let_def decimal_value leD)
qed

lemma read_socket_show:
  assumes "length octets = 4"
  shows "parse_socket_addr (show_socket_v4 (octets, p)) = Some (V4 octets, p)"
proof -
  obtain a b c d where o: "octets = [a, b, c, d]"
    using assms by (auto simp: numeral_eq_Suc length_Suc_conv)
  have octet: "read_number 10 (Some 3) False 255 (decimal (unat (x :: u8)) @ ch # rest) = Some (unat x, ch # rest)"
    if "digit_of 10 ch = None" for x ch rest
    using unsigned_less [of x, where 'a = nat] that by (intro read_number_decimal) simp_all
  have port: "read_number 10 None True 65535 (decimal (unat p)) = Some (unat p, [])"
    using read_number_decimal [of "unat p" 65535 None "[]" True] unsigned_less [of p, where 'a = nat] by simp
  have seps: "digit_of 10 CHR ''.'' = None" "digit_of 10 CHR '':'' = None" by (simp_all add: digit_of_def Let_def)
  have four: "read_octets 4 first s = read_octets (Suc (Suc (Suc (Suc 0)))) first s" for first s
    by (simp add: numeral_eq_Suc)
  have "read_ipv4_addr (show_socket_v4 (octets, p)) = Some (octets, CHR '':'' # decimal (unat p))"
    by (simp add: read_ipv4_addr_def four show_socket_v4_def o read_separator_def read_given_char_def octet seps)
  then show ?thesis
    by (simp add: parse_socket_addr_def read_socket_addr_v4_def read_port_def read_given_char_def port)
qed

text \<open>A printed address has no comma and begins and ends with a digit.\<close>

lemma decimal_plain: "ch \<in> set (decimal n) \<Longrightarrow> \<not> is_whitespace ch \<and> ch \<noteq> CHR '',''"
proof -
  assume "ch \<in> set (decimal n)"
  then obtain d :: nat where d: "d < 10" "ch = char_of (48 + d)" using decimal_digits by blast
  then have "of_char ch = 48 + d" by (simp add: of_char_of)
  moreover have "of_char CHR '','' = (44 :: nat)" by simp
  ultimately have "\<not> is_whitespace ch" "ch \<noteq> CHR '',''" by (auto simp: is_whitespace_def)
  then show ?thesis by blast
qed

lemma show_plain: "ch \<in> set (show_socket_v4 sa) \<Longrightarrow> \<not> is_whitespace ch \<and> ch \<noteq> CHR '',''"
  by (cases sa) (auto simp: show_socket_v4_def is_whitespace_def dest: decimal_plain)

lemma show_no_comma: "CHR '','' \<notin> set (show_socket_v4 sa)"
  using show_plain by blast

lemma trim_plain: "(\<And>ch. ch \<in> set s \<Longrightarrow> \<not> is_whitespace ch) \<Longrightarrow> trim s = s"
proof -
  assume plain: "\<And>ch. ch \<in> set s \<Longrightarrow> \<not> is_whitespace ch"
  then have "s \<noteq> [] \<Longrightarrow> \<not> is_whitespace (hd s) \<and> \<not> is_whitespace (last s)" by simp
  then have "dropWhile is_whitespace s = s" "dropWhile is_whitespace (rev s) = rev s"
    by (auto simp: dropWhile_eq_self_iff hd_rev)
  then show ?thesis by (simp add: trim_def)
qed

lemma split_no_sep: "sep \<notin> set s \<Longrightarrow> split_at_char sep s = [s]"
  by (induction s) auto

lemma split_nonempty: "split_at_char sep s \<noteq> []"
  by (cases s) (auto split: list.split)

lemma split_append: "split_at_char sep (s @ sep # t) = split_at_char sep s @ split_at_char sep t"
  by (induction s) (auto simp: split_nonempty split: list.split)

lemma split_joined:
  "(\<forall>p \<in> set ps. CHR '','' \<notin> set p) \<Longrightarrow>
     split_at_char CHR '','' (foldl join_connect s ps) = split_at_char CHR '','' s @ ps"
  by (induction ps arbitrary: s) (simp_all add: join_connect_def split_append split_no_sep)

lemma collect_shown:
  "(\<forall>sa \<in> set sas. length (fst sa) = 4) \<Longrightarrow> collect_addrs (map show_socket_v4 sas) = Inr (map (map_prod V4 id) sas)"
  by (induction sas) (auto simp: trim_plain show_plain read_socket_show)

section \<open>Properties\<close>

text \<open>
  C11: Gossip cannot displace what the node knows.  From any start of the node (whatever the
  peers file holds and the resolver answers) and after any gossip and reports, an address
  message keeps every stored record as it is, adds only addresses from the message, none of
  an unknown network, under the sender's source, and one source never holds more than 64 of
  the 256 slots.
\<close>

theorem gossip_safe:
  fixes src payload
  assumes "node_book h dec lookup t"
  defines "c \<equiv> addr_table_cfg h" and "t' \<equiv> process_addrs (addr_table_cfg h) src payload t"
  shows "table_look c t \<subseteq>\<^sub>m table_look c t'
     \<and> (\<forall>k r. table_look c t' k = Some r \<longrightarrow> table_look c t k = Some r
          \<or> (\<exists>a \<in> set payload. \<not> unknown_addr (am_addr a)
               \<and> r = new_from_addrv2_source c (am_addr a) (am_port a) (am_services a) src))
     \<and> card {k. \<exists>r. table_look c t' k = Some r \<and> source r = s} \<le> 64"
proof -
  have "table_reachable c t" using node_book_reachable [OF assms(1)] by (simp add: c_def)
  moreover have cfg: "cfg_ok c" "nW c * nS c = 64" by (simp_all add: c_def cfg_ok_def addr_table_cfg_def)
  ultimately have inv: "table_inv c t" "table_inv c t'"
    using process_addrs_reachable [of c t src payload] by (simp_all add: table_reachable_inv t'_def c_def)
  from process_addrs_look [OF inv(1), of src payload] source_slots_bounded [OF inv(2) cfg(1), of s] cfg(2)
  show ?thesis unfolding t'_def c_def by simp
qed

text \<open>
  C31: The addresses given with \<open>--connect\<close>, one by one or in one comma-separated list,
  are the ones the node connects to: any non-empty list of IPv4 addresses with ports, printed
  and joined as the options are, is parsed back to exactly that list.
\<close>

theorem connect_roundtrip:
  assumes "\<forall>sa \<in> set (sa0 # sas). length (fst sa) = 4"
  shows "parse_connect (Some (foldl join_connect (show_socket_v4 sa0) (map show_socket_v4 sas)))
     = Inr (map (map_prod V4 id) (sa0 # sas))"
proof -
  have "split_at_char CHR '','' (foldl join_connect (show_socket_v4 sa0) (map show_socket_v4 sas))
      = map show_socket_v4 (sa0 # sas)"
    by (subst split_joined) (auto simp: split_no_sep show_no_comma)
  then show ?thesis using collect_shown [OF assms] by (simp add: parse_connect_def)
qed

text \<open>
  C38: Of two \<open>--connect\<close> addresses that fall into one slot of the address book only the
  first is in the table the node starts with: the second peer is never tried.
\<close>

theorem connect_collision:
  fixes h
  defines "c \<equiv> addr_table_cfg h"
  assumes "table_key c (seed_record c b) = table_key c (seed_record c a)"
  shows "table_look c (initial_table h dec lookup n [a, b] p fs) = [table_key c (seed_record c a) \<mapsto> seed_record c a]"
proof -
  have "cfg_ok c" by (simp add: c_def cfg_ok_def addr_table_cfg_def)
  then have inv: "table_inv c (table_new c)" "table_inv c (fst (table_add c (table_new c) (seed_record c a)))"
    by (simp_all add: table_inv_new table_store.inv_ins)
  have "table_look c (fst (table_add c (table_new c) (seed_record c a))) = [table_key c (seed_record c a) \<mapsto> seed_record c a]"
    using table_store.ins_free [OF inv(1), of "seed_record c a"] by (auto simp: table_look_new fun_eq_iff)
  moreover from this have "table_add c (fst (table_add c (table_new c) (seed_record c a))) (seed_record c b)
      = (fst (table_add c (table_new c) (seed_record c a)), Some (seed_record c a))"
    using table_store.ins_conflict [OF inv(2), of "seed_record c b"] assms(2) by simp
  ultimately show ?thesis by (simp add: initial_table_def Let_def flip: c_def)
qed

section \<open>Witnesses\<close>

theorem gossip_safe_witness:
  "table_look (addr_table_cfg demo_hash) (initial_table demo_hash (\<lambda>_. Inl []) (\<lambda>_. None) network.Regtest [(V4 [10, 0, 0, 1], 8333)] [] Map.empty)
     \<subseteq>\<^sub>m table_look (addr_table_cfg demo_hash)
          (process_addrs (addr_table_cfg demo_hash) (Ipv4 [10, 0, 0, 2])
            [\<lparr>am_time = 0, am_services = 1, am_addr = Ipv4 [10, 0, 0, 3], am_port = 8333\<rparr>]
            (initial_table demo_hash (\<lambda>_. Inl []) (\<lambda>_. None) network.Regtest [(V4 [10, 0, 0, 1], 8333)] [] Map.empty))"
  using gossip_safe [OF node_book.start] by blast

theorem connect_roundtrip_witness:
  "parse_connect (Some ''10.0.0.1:8333,10.0.0.2:18444'') = Inr [(V4 [10, 0, 0, 1], 8333), (V4 [10, 0, 0, 2], 18444)]"
  using connect_roundtrip [of "([10, 0, 0, 1], 8333)" "[([10, 0, 0, 2], 18444)]"]
  by (simp add: show_socket_v4_def join_connect_def decimal.simps char_of_def bit_0)

theorem connect_collision_witness:
  "table_look (addr_table_cfg demo_hash)
      (initial_table demo_hash (\<lambda>_. Inl []) (\<lambda>_. None) network.Regtest [(V4 [10, 0, 0, 1], 8333), (V4 [10, 0, 0, 2], 8333)] [] Map.empty)
      (table_key (addr_table_cfg demo_hash) (seed_record (addr_table_cfg demo_hash) (V4 [10, 0, 0, 2], 8333)))
    = Some (seed_record (addr_table_cfg demo_hash) (V4 [10, 0, 0, 1], 8333))"
proof -
  let ?c = "addr_table_cfg demo_hash"
  have "table_key ?c (seed_record ?c (V4 [10, 0, 0, 2], 8333)) = table_key ?c (seed_record ?c (V4 [10, 0, 0, 1], 8333))"
    by (simp add: table_key_def derive_bucket_def derive_slot_def seed_record_def record_new_def destination_id_def
        destination_id_addr_def addr_table_cfg_def demo_hash_def)
  then show ?thesis
    using connect_collision [of demo_hash "(V4 [10, 0, 0, 2], 8333)" "(V4 [10, 0, 0, 1], 8333)"] by simp
qed

end
