(* ===== verification/Wizard.thy ===== *)
theory Wizard
  imports Node
begin

text \<open>
  The setup wizard (src/bin/wizard.rs) and the path helper it uses (src/ext.rs): prompts that
  read lines until an answer is acceptable, the arrow-key menu and its fallback for input
  that is no terminal, and the command line that is printed and run.  Input is the list of
  lines, or of key presses, that is left; what is printed while asking is not modelled.
\<close>

section \<open>Prompts\<close>

definition read_line :: "string list \<Rightarrow> string \<times> string list" where
  "read_line ls = (case ls of [] \<Rightarrow> ([], []) | l # ls \<Rightarrow> (trim l, ls))"

definition prompt_with_default :: "string \<Rightarrow> string list \<Rightarrow> string \<times> string list" where
  "prompt_with_default dflt ls =
     (case read_line ls of (answer, ls) \<Rightarrow> (if answer = [] then dflt else answer, ls))"

definition prompt_optional :: "string list \<Rightarrow> string option \<times> string list" where
  "prompt_optional ls =
     (case read_line ls of (answer, ls) \<Rightarrow> (if answer = [] then None else Some answer, ls))"

definition to_ascii_lowercase :: "string \<Rightarrow> string" where
  "to_ascii_lowercase s =
     map (\<lambda>ch. let n = of_char ch :: nat in if 65 \<le> n \<and> n \<le> 90 then char_of (n + 32) else ch) s"

text \<open>The end of the input reads as an empty line, so each loop ends.\<close>

fun prompt_yes_no :: "bool \<Rightarrow> string list \<Rightarrow> bool \<times> string list" where
  "prompt_yes_no dflt [] = (dflt, [])"
| "prompt_yes_no dflt (l # ls) =
     (let answer = trim l in
      if answer = [] then (dflt, ls)
      else if to_ascii_lowercase answer \<in> {''y'', ''yes''} then (True, ls)
      else if to_ascii_lowercase answer \<in> {''n'', ''no''} then (False, ls)
      else prompt_yes_no dflt ls)"

section \<open>Choosing an option\<close>

text \<open>\<open>str::parse\<close> for a 64-bit \<open>usize\<close>: an optional plus sign and digits.\<close>

definition parse_usize :: "string \<Rightarrow> nat option" where
  "parse_usize s =
     (case read_number 10 None True (2 ^ 64 - 1) (if s \<noteq> [] \<and> hd s = CHR ''+'' then tl s else s) of
        Some (n, []) \<Rightarrow> Some n
      | _ \<Rightarrow> None)"

fun fallback_select :: "string list \<Rightarrow> nat \<Rightarrow> string list \<Rightarrow> (string \<times> string list) option" where
  "fallback_select options default_idx [] =
     (if default_idx < length options then Some (options ! default_idx, []) else None)"
| "fallback_select options default_idx (l # ls) =
     (let answer = trim l in
      if length options \<le> default_idx then None
      else if answer = [] then Some (options ! default_idx, ls)
      else
        (case find (\<lambda>opt. to_ascii_lowercase opt = to_ascii_lowercase answer) options of
           Some opt \<Rightarrow> Some (opt, ls)
         | None \<Rightarrow>
             (case parse_usize answer of
                Some idx \<Rightarrow>
                  (if idx < length options then Some (options ! idx, ls) else fallback_select options default_idx ls)
              | None \<Rightarrow> fallback_select options default_idx ls)))"

text \<open>
  The menu: one key press is the bytes of one read.  \<open>Waiting\<close> is the menu when no key
  is left.
\<close>

datatype menu_result = Chosen string | Aborted | Waiting nat

definition menu_up :: "nat \<Rightarrow> nat \<Rightarrow> nat" where
  "menu_up n idx = (if idx = 0 then n - 1 else idx - 1)"

definition menu_down :: "nat \<Rightarrow> nat \<Rightarrow> nat" where
  "menu_down n idx = (idx + 1) mod n"

fun menu_loop :: "string list \<Rightarrow> nat \<Rightarrow> u8 list list \<Rightarrow> menu_result" where
  "menu_loop options idx [] = Waiting idx"
| "menu_loop options idx (key # ks) =
     (case key of
        [] \<Rightarrow> menu_loop options idx ks
      | b # rest \<Rightarrow>
          (if b = 13 \<or> b = 10 then Chosen (options ! idx)
           else if b = 3 then Aborted
           else if b = 0x1b \<and> 2 \<le> length rest \<and> rest ! 0 = 0x5b then
             (if rest ! 1 = 0x41 then menu_loop options (menu_up (length options) idx) ks
              else if rest ! 1 = 0x42 then menu_loop options (menu_down (length options) idx) ks
              else menu_loop options idx ks)
           else if b = 0x6b then menu_loop options (menu_up (length options) idx) ks
           else if b = 0x6a then menu_loop options (menu_down (length options) idx) ks
           else menu_loop options idx ks))"

definition menu_select :: "string list \<Rightarrow> nat \<Rightarrow> u8 list list \<Rightarrow> menu_result" where
  "menu_select options default_idx ks = menu_loop options (min default_idx (length options - 1)) ks"

section \<open>Paths\<close>

definition is_absolute :: "path \<Rightarrow> bool" where
  "is_absolute p \<longleftrightarrow> p \<noteq> [] \<and> hd p = CHR ''/''"

definition path_join :: "path \<Rightarrow> path \<Rightarrow> path" where
  "path_join base p =
     (if is_absolute p then p
      else if base = [] \<or> last base = CHR ''/'' then base @ p
      else base @ ''/'' @ p)"

definition expand_tilde :: "path \<Rightarrow> string \<Rightarrow> path" where
  "expand_tilde home s = (if take 2 s = ''~/'' then path_join home (drop 2 s) else s)"

text \<open>\<open>canonicalize\<close> resolves a path of the file system, or fails.\<close>

fun prompt_keys_file ::
    "path \<Rightarrow> path \<Rightarrow> (path \<Rightarrow> path option) \<Rightarrow> string list \<Rightarrow> path option \<times> string list" where
  "prompt_keys_file home cwd canonicalize [] = (None, [])"
| "prompt_keys_file home cwd canonicalize (l # ls) =
     (let input = trim l in
      if input = [] then (None, ls)
      else
        (case canonicalize (path_join cwd (expand_tilde home input)) of
           Some p \<Rightarrow> (Some p, ls)
         | None \<Rightarrow> prompt_keys_file home cwd canonicalize ls))"

section \<open>The command line\<close>

definition is_safe :: "char \<Rightarrow> bool" where
  "is_safe ch \<longleftrightarrow>
     (let n = of_char ch :: nat in 48 \<le> n \<and> n \<le> 57 \<or> 65 \<le> n \<and> n \<le> 90 \<or> 97 \<le> n \<and> n \<le> 122)
     \<or> ch \<in> set ''-_./=:,@+~''"

definition single_quote :: char where "single_quote = char_of (39 :: nat)"
definition backslash :: char where "backslash = char_of (92 :: nat)"

definition escape_quotes :: "string \<Rightarrow> string" where
  "escape_quotes s =
     concat (map (\<lambda>ch. if ch = single_quote then [single_quote, backslash, single_quote, single_quote] else [ch]) s)"

definition shell_quote :: "string \<Rightarrow> string" where
  "shell_quote arg =
     (if arg \<noteq> [] \<and> list_all is_safe arg then arg else [single_quote] @ escape_quotes arg @ [single_quote])"

definition wizard_args ::
    "string \<Rightarrow> string \<Rightarrow> string option \<Rightarrow> string option \<Rightarrow> string option \<Rightarrow> bool \<Rightarrow> string list" where
  "wizard_args network datadir connect sp_keys_file proxy daemon =
     [''run'', ''--bin'', ''node'', ''--release'', ''--'', ''--network'', network, ''--datadir'', datadir]
     @ (case connect of Some c \<Rightarrow> [''--connect'', c] | None \<Rightarrow> [])
     @ (case sp_keys_file of Some k \<Rightarrow> [''--sp-keys-file'', k] | None \<Rightarrow> [])
     @ (case proxy of Some p \<Rightarrow> [''--proxy'', p] | None \<Rightarrow> [])
     @ (if daemon then [''--daemon=true''] else [])"

fun join_words :: "string list \<Rightarrow> string" where
  "join_words [] = []"
| "join_words [w] = w"
| "join_words (w # ws) = w @ '' '' @ join_words ws"

definition printed_command :: "string list \<Rightarrow> string" where
  "printed_command args = ''cargo '' @ join_words (map shell_quote args)"

text \<open>
  The wizard on input that is no terminal: the arguments, and whether the node is started.
  \<open>None\<close> does not occur, as the menu has a default.
\<close>

definition wizard ::
    "path \<Rightarrow> path \<Rightarrow> (path \<Rightarrow> path option) \<Rightarrow> string list \<Rightarrow> (string list \<times> bool) option" where
  "wizard home cwd canonicalize ls =
     map_option (\<lambda>(network, ls).
       case prompt_with_default ''~/.kernel-node'' ls of (datadir, ls) \<Rightarrow>
       case prompt_optional ls of (connect, ls) \<Rightarrow>
       case prompt_keys_file home cwd canonicalize ls of (sp_keys_file, ls) \<Rightarrow>
       case prompt_yes_no False ls of (use_proxy, ls) \<Rightarrow>
       case (if use_proxy then map_prod Some id (prompt_with_default ''127.0.0.1:9050'' ls) else (None, ls)) of (proxy, ls) \<Rightarrow>
       case prompt_yes_no False ls of (daemon, ls) \<Rightarrow>
       case prompt_yes_no True ls of (start, ls) \<Rightarrow>
         (wizard_args network datadir connect sp_keys_file proxy daemon, start))
       (fallback_select [''signet'', ''bitcoin''] 0 ls)"

section \<open>How a shell reads the command\<close>

text \<open>
  The words of a command line by the rules of a POSIX shell, for what the wizard prints: plain
  characters, single quotes and the backslash outside quotes.  Any other character has a
  meaning to the shell and is no result.  Tilde expansion is left out: the node does it.
\<close>

fun sh_words :: "string option \<Rightarrow> bool \<Rightarrow> string \<Rightarrow> string list option" where
  "sh_words cur True [] = None"
| "sh_words cur False [] = Some (case cur of None \<Rightarrow> [] | Some w \<Rightarrow> [w])"
| "sh_words cur True (c # cs) =
     (if c = single_quote then sh_words cur False cs
      else sh_words (Some (case_option [] id cur @ [c])) True cs)"
| "sh_words cur False (c # cs) =
     (if c = single_quote then sh_words (Some (case_option [] id cur)) True cs
      else if c = backslash then
        (case cs of [] \<Rightarrow> None | d # ds \<Rightarrow> sh_words (Some (case_option [] id cur @ [d])) False ds)
      else if c = CHR '' '' then
        (case cur of None \<Rightarrow> sh_words None False cs | Some w \<Rightarrow> map_option ((#) w) (sh_words None False cs))
      else if is_safe c then sh_words (Some (case_option [] id cur @ [c])) False cs
      else None)"

lemma safe_plain: "is_safe c \<Longrightarrow> c \<noteq> single_quote \<and> c \<noteq> backslash \<and> c \<noteq> CHR '' ''"
  by (auto simp: is_safe_def single_quote_def backslash_def of_char_of Let_def char_of_def bit_0)

lemma sh_words_safe:
  "list_all is_safe w \<Longrightarrow> w \<noteq> [] \<or> cur \<noteq> None \<Longrightarrow>
     sh_words cur False (w @ rest) = sh_words (Some (case_option [] id cur @ w)) False rest"
proof (induction w arbitrary: cur)
  case (Cons c w)
  then show ?case using safe_plain [of c] Cons.IH [of "Some (case_option [] id cur @ [c])"] by simp
qed auto

lemma sh_words_quoted:
  "sh_words (Some u) True (escape_quotes w @ single_quote # rest) = sh_words (Some (u @ w)) False rest"
proof (induction w arbitrary: u)
  case (Cons c w)
  have "backslash \<noteq> single_quote" by (simp add: single_quote_def backslash_def char_of_def bit_0)
  then show ?case using Cons.IH [of "u @ [c]"] by (cases "c = single_quote") (simp_all add: escape_quotes_def)
qed (simp add: escape_quotes_def)

lemma sh_words_quote: "sh_words None False (shell_quote w @ rest) = sh_words (Some w) False rest"
  using sh_words_safe [of w None rest] sh_words_quoted [of "[]" w rest] by (simp add: shell_quote_def)

lemma sh_words_join: "sh_words None False (join_words (map shell_quote ws)) = Some ws"
proof (induction ws rule: join_words.induct)
  case (2 w)
  then show ?case using sh_words_quote [of w "[]"] by simp
next
  case (3 w v vs)
  have "CHR '' '' \<noteq> single_quote" "CHR '' '' \<noteq> backslash"
    by (simp_all add: single_quote_def backslash_def char_of_def bit_0)
  then show ?case using 3 sh_words_quote [of w "CHR '' '' # join_words (map shell_quote (v # vs))"] by simp
qed simp

lemma menu_moves: "idx < n \<Longrightarrow> menu_up n idx < n \<and> menu_down n idx < n"
  by (auto simp: menu_up_def menu_down_def)

text \<open>
  Whatever keys are pressed, the menu keeps its index within the options, so that the
  choice made with return is one of them.
\<close>

lemma menu_in_range:
  assumes "options \<noteq> []"
  shows "case menu_select options dflt ks of
       Chosen opt \<Rightarrow> opt \<in> set options
     | Aborted \<Rightarrow> True
     | Waiting idx \<Rightarrow> idx < length options"
proof -
  have "case menu_loop options idx ks of Chosen opt \<Rightarrow> opt \<in> set options | Aborted \<Rightarrow> True
      | Waiting idx \<Rightarrow> idx < length options" if "idx < length options" for idx
    using that
  proof (induction ks arbitrary: idx)
    case (Cons key ks)
    then show ?case using menu_moves [OF Cons.prems] by (simp split: list.split)
  qed simp
  then show ?thesis using assms by (simp add: menu_select_def min_less_iff_disj)
qed

lemma fallback_select_total: "options \<noteq> [] \<Longrightarrow> fallback_select options 0 ls \<noteq> None"
  by (induction options "0 :: nat" ls rule: fallback_select.induct) (auto simp: Let_def split: option.split)

section \<open>Properties\<close>


end
