(* ===== verification/Cli.thy ===== *)
theory Cli
  imports Wallet_Service Wallet_Sync
begin

text \<open>
  The server's own IPC requests (src/ipc/mod.rs, src/ipc/chain.rs) and the command-line
  client (src/bin/cli.rs): generating and printing keys, and the commands that ask the wallet
  or the chain and print the answer.  A call is the handler's step followed by what the client
  prints; the transport in between is perfect.  Parsing of arguments is not modelled.
\<close>

section \<open>The server\<close>

record ipc_server =
  is_signals :: nat
  is_open :: bool

text \<open>The client's message is a Rust string, so that it is always valid UTF-8.\<close>

definition echo :: "string \<Rightarrow> string" where
  "echo msg = msg"

definition ipc_shutdown :: "ipc_server \<Rightarrow> string + ipc_server" where
  "ipc_shutdown srv =
     (if is_open srv then Inr (srv\<lparr>is_signals := is_signals srv + 1\<rparr>) else Inl ''could not shutdown server.'')"

definition get_tip :: "('c, 'e, 'tx, 'b) kernel \<Rightarrow> (block_hash \<Rightarrow> string) \<Rightarrow> 'c \<Rightarrow> u32 \<times> string" where
  "get_tip K show_hash c =
     (let tip = active_tip K c in (word_of_int (entry_height K tip), show_hash (entry_hash K tip)))"

section \<open>What a command prints\<close>

record cli_output =
  co_stdout :: "string list"
  co_stderr :: "string list"
  co_exit :: nat

definition prints :: "string list \<Rightarrow> cli_output" where
  "prints ls = \<lparr>co_stdout = ls, co_stderr = [], co_exit = 0\<rparr>"

definition cli_echo :: "string \<Rightarrow> cli_output" where
  "cli_echo msg = prints [''Sending... '' @ msg, echo msg]"

text \<open>\<open>None\<close> is the panic of an \<open>unwrap\<close> or \<open>expect\<close> in the client.\<close>

definition cli_stop :: "ipc_server \<Rightarrow> cli_output option \<times> ipc_server" where
  "cli_stop srv =
     (case ipc_shutdown srv of
        Inl _ \<Rightarrow> (None, srv)
      | Inr srv' \<Rightarrow> (Some (prints [''Kernel node stopping...'']), srv'))"

definition cli_tip :: "('c, 'e, 'tx, 'b) kernel \<Rightarrow> (block_hash \<Rightarrow> string) \<Rightarrow> 'c \<Rightarrow> cli_output" where
  "cli_tip K show_hash c =
     (case get_tip K show_hash c of (height, hash) \<Rightarrow>
        prints [''height='' @ decimal (unat height) @ '' hash='' @ hash])"

section \<open>Keys\<close>

text \<open>The two random keys and the x-only public key of the second.\<close>

definition generate_keys :: "('r, 'pk, 'td) silent_payments \<Rightarrow> secret_key \<times> secret_key \<Rightarrow> secret_key \<times> secret_key \<times> xonly" where
  "generate_keys sp rng = (case rng of (scan_priv, spend_priv) \<Rightarrow>
     (scan_priv, spend_priv, fst (sp_x_only sp (sp_public_key sp spend_priv))))"

text \<open>The dash of the warning is the three bytes of its UTF-8 encoding.\<close>

definition keys_warning :: string where
  "keys_warning = ''WARNING: scan_key and spend_priv must be kept secret '' @ map char_of [226 :: nat, 128, 148]
     @ '' anyone with them can spend received funds.''"

definition cli_generate_keys ::
    "('r, 'pk, 'td) silent_payments \<Rightarrow> (secret_key \<Rightarrow> string) \<Rightarrow> (xonly \<Rightarrow> string) \<Rightarrow> secret_key \<times> secret_key \<Rightarrow> save_faults
       \<Rightarrow> path option \<Rightarrow> file_system \<Rightarrow> cli_output option \<times> file_system" where
  "cli_generate_keys sp show_secret show_xonly rng fl out fs =
     (case generate_keys sp rng of (scan_priv, spend_priv, spend_pub) \<Rightarrow>
        case out of
          Some path \<Rightarrow>
            (case keys_save fl path \<lparr>kf_scan_key = scan_priv, kf_spend_key = Secret spend_priv\<rparr> fs of
               (Inl _, fs') \<Rightarrow> (None, fs')
             | (Inr _, fs') \<Rightarrow>
                 (Some (prints [''Wrote silent payment keys to '' @ path, ''spend_pub='' @ show_xonly spend_pub]), fs'))
        | None \<Rightarrow>
            (Some ((prints [''scan_key='' @ show_secret scan_priv, ''spend_priv='' @ show_secret spend_priv,
                            ''spend_pub='' @ show_xonly spend_pub])\<lparr>co_stderr := [keys_warning]\<rparr>), fs))"

definition cli_print_keys ::
    "('r, 'pk, 'td) silent_payments \<Rightarrow> (secret_key \<Rightarrow> bool) \<Rightarrow> (xonly \<Rightarrow> bool) \<Rightarrow> (secret_key \<Rightarrow> string) \<Rightarrow> (xonly \<Rightarrow> string)
       \<Rightarrow> path \<Rightarrow> file_system \<Rightarrow> cli_output option" where
  "cli_print_keys sp key_ok xonly_ok show_secret show_xonly p fs =
     (case keys_load key_ok xonly_ok p fs of
        Inl _ \<Rightarrow> None
      | Inr kf \<Rightarrow>
          Some ((prints [])\<lparr>co_stderr := [''spend_pub='' @ show_xonly (spend_xonly sp (kf_spend_key kf)),
                                           ''scan_key='' @ show_secret (kf_scan_key kf)]\<rparr>))"

section \<open>Wallet commands\<close>

text \<open>The answer of a request whose error makes the client panic, with the service after it.\<close>

definition on_reply :: "(bool \<Rightarrow> string \<Rightarrow> cli_output) \<Rightarrow> reply \<times> 's \<Rightarrow> cli_output option \<times> 's" where
  "on_reply f r = (case r of (Ok ok msg, s) \<Rightarrow> (Some (f ok msg), s) | (Failed _, s) \<Rightarrow> (None, s))"

text \<open>\<open>from_hex\<close> is the decoder of the hex crate.\<close>

definition cli_import_keys ::
    "('r, 'pk, 'td) silent_payments \<Rightarrow> (string \<Rightarrow> u8 list option) \<Rightarrow> (u8 list \<Rightarrow> string + secret_key) \<Rightarrow> (u8 list \<Rightarrow> string + xonly)
       \<Rightarrow> string \<Rightarrow> string \<Rightarrow> ('r, 'pk) service \<Rightarrow> cli_output option \<times> ('r, 'pk) service" where
  "cli_import_keys sp from_hex parse_secret parse_xonly scan_hex spend_hex sv =
     (case (from_hex scan_hex, from_hex spend_hex) of
        (Some scan_bytes, Some spend_bytes) \<Rightarrow>
          on_reply (\<lambda>_ msg. prints [msg]) (ipc_import_keys sp parse_secret parse_xonly scan_bytes spend_bytes sv)
      | _ \<Rightarrow> (None, sv))"

definition cli_balance :: "outpoint list \<Rightarrow> outpoint list \<Rightarrow> ('r, 'pk) service \<Rightarrow> cli_output option" where
  "cli_balance order order' sv =
     map_option (\<lambda>(sats, height, coins).
         prints [''Balance: '' @ decimal (unat sats) @ '' sats | scan height: '' @ decimal (unat height)
                   @ '' | UTXOs: '' @ decimal (unat coins)])
       (get_balance order order' sv)"

definition cli_history :: "(txid \<Rightarrow> string) \<Rightarrow> outpoint list \<Rightarrow> ('r, 'pk) service \<Rightarrow> cli_output" where
  "cli_history show_txid order sv =
     (let entries = get_history show_txid order sv in
      prints [if entries = [] then ''No history yet.'' else entries])"

definition cli_receive :: "('r, 'pk, 'td) silent_payments \<Rightarrow> ('r, 'pk) service \<Rightarrow> cli_output option" where
  "cli_receive sp sv = (case ipc_receive sp sv of Inl _ \<Rightarrow> None | Inr address \<Rightarrow> Some (prints [address]))"

definition cli_broadcast_raw_tx ::
    "(string \<Rightarrow> u8 list option) \<Rightarrow> (u8 list \<Rightarrow> string + transaction) \<Rightarrow> (transaction \<Rightarrow> string) \<Rightarrow> string
       \<Rightarrow> ('r, 'pk) service \<Rightarrow> cli_output option \<times> ('r, 'pk) service" where
  "cli_broadcast_raw_tx from_hex decode compute_txid tx sv =
     (case from_hex tx of
        None \<Rightarrow> (None, sv)
      | Some raw \<Rightarrow> on_reply (\<lambda>_ txid. prints [txid]) (broadcast_raw_tx decode compute_txid raw sv))"

text \<open>Without a consolidation rate the schema's default of the field, \<open>default_rate\<close>, is sent.\<close>

definition cli_send_to_address ::
    "('cs, 'f, 'code, 'km, 'ps, 'r) send_env \<Rightarrow> ('q \<Rightarrow> bool) \<Rightarrow> ('q \<Rightarrow> u64) \<Rightarrow> (transaction \<Rightarrow> string) \<Rightarrow> outpoint list \<Rightarrow> 'q
       \<Rightarrow> string \<Rightarrow> u64 \<Rightarrow> 'q \<Rightarrow> 'q option \<Rightarrow> ('r, 'pk) service \<Rightarrow> cli_output option \<times> ('r, 'pk) service" where
  "cli_send_to_address E is_rate to_kwu compute_txid order default_rate address amount rate consolidate_rate sv =
     on_reply (\<lambda>ok msg. if ok then prints [msg] else \<lparr>co_stdout = [], co_stderr = [msg], co_exit = 1\<rparr>)
       (send_to_address E is_rate to_kwu compute_txid order address amount rate
          (case consolidate_rate of Some r \<Rightarrow> r | None \<Rightarrow> default_rate) sv)"

section \<open>Properties\<close>

lemma keys_save_content:
  "keys_save fl p kf fs = (Inr u, fs') \<Longrightarrow> fs' = fs(p \<mapsto> keys_to_bytes kf)"
  by (auto simp: keys_save_def fs_create_new_def fs_defs split: if_splits option.splits)

lemma import_generated:
  assumes "parity_laws sp" "build_receiver sp scan (sp_even_key sp (fst (sp_x_only sp (sp_public_key sp spend)))) (wallet_net w) = Inr r"
  shows "\<exists>w'. import_signing_keys sp scan spend w = Inr w' \<and> keys w' = Some \<lparr>keys_receiver = r, keys_scan_key = scan\<rparr>
     \<and> map_option (sp_public_key sp) (spend_secret w') = Some (sp_even_key sp (fst (sp_x_only sp (sp_public_key sp spend))))
     \<and> utxos w' = utxos w"
proof -
  obtain x odd where xo: "sp_x_only sp (sp_public_key sp spend) = (x, odd)" by fastforce
  have "sp_even_key sp x = sp_public_key sp (if odd then sp_negate sp spend else spend)"
    using assms(1) xo by (metis fst_conv parity_laws_def snd_conv)
  then show ?thesis using assms(2) xo by (simp add: import_signing_keys_def import_keys_def Let_def)
qed

text \<open>
  C22: Keys generated by the client work in the node.  When the client has written a keys
  file and the node starts with it, the start does not fail on the keys, the wallet receives
  with the generated scan key, keeps the coins of its file, and signs with a secret that
  belongs to the spend key the client printed.  Generating prints that key on the standard
  output and no secret; printing the file again gives the same key and the scan key, both on
  the standard error, and never the spend secret.
\<close>

theorem generated_keys_work:
  fixes sp :: "('r, 'pk, 'td) silent_payments" and w :: "('r, 'pk) wallet"
  assumes "parity_laws sp" "key_ok scan" "key_ok spend"
    and gen: "cli_generate_keys sp show_secret show_xonly (scan, spend) fl (Some p) fs = (Some res, fs')"
    and "initial_wallet scalar_ok store fs' = Some w"
  defines "x \<equiv> fst (sp_x_only sp (sp_public_key sp spend))"
  assumes "build_receiver sp scan (sp_even_key sp x) (wallet_net w) = Inr r"
  shows "\<exists>s. start_node sp scalar_ok key_ok xonly_ok store (Some p) fs' = (Some s :: ('r, 'pk, 'h) sync_state option)
     \<and> keys (sy_wallet s) = Some \<lparr>keys_receiver = r, keys_scan_key = scan\<rparr> \<and> utxos (sy_wallet s) = utxos w
     \<and> map_option (sp_public_key sp) (spend_secret (sy_wallet s)) = Some (sp_even_key sp x)
     \<and> res = \<lparr>co_stdout = [''Wrote silent payment keys to '' @ p, ''spend_pub='' @ show_xonly x], co_stderr = [], co_exit = 0\<rparr>
     \<and> cli_print_keys sp key_ok xonly_ok show_secret show_xonly p fs'
         = Some \<lparr>co_stdout = [], co_stderr = [''spend_pub='' @ show_xonly x, ''scan_key='' @ show_secret scan], co_exit = 0\<rparr>"
proof -
  let ?kf = "\<lparr>kf_scan_key = scan, kf_spend_key = Secret spend\<rparr>"
  have out: "res = \<lparr>co_stdout = [''Wrote silent payment keys to '' @ p, ''spend_pub='' @ show_xonly x], co_stderr = [], co_exit = 0\<rparr>"
    and "fs' = fs(p \<mapsto> keys_to_bytes ?kf)"
    using gen keys_save_content [of fl p ?kf fs]
    by (auto simp: cli_generate_keys_def generate_keys_def prints_def x_def split: prod.splits sum.splits)
  moreover have "keys_valid key_ok xonly_ok ?kf" using assms(2,3) by (simp add: keys_valid_def)
  ultimately have load: "keys_load key_ok xonly_ok p fs' = Inr ?kf"
    by (simp add: keys_load_def fs_read_def keys_from_to_bytes)
  obtain w' where w': "import_signing_keys sp scan spend w = Inr w'"
    "keys w' = Some \<lparr>keys_receiver = r, keys_scan_key = scan\<rparr>"
    "map_option (sp_public_key sp) (spend_secret w') = Some (sp_even_key sp x)" "utxos w' = utxos w"
    using import_generated [OF assms(1), of scan spend w r] assms(7) unfolding x_def by blast
  from w'(1) load have "auto_import_keys sp key_ok xonly_ok p fs' w = Some w'" by (simp add: auto_import_keys_def)
  then have "start_node sp scalar_ok key_ok xonly_ok store (Some p) fs'
      = (Some \<lparr>sy_wallet = w', sy_fs = fs', sy_fatal = fatal_new, sy_events = [], sy_open = True\<rparr> :: ('r, 'pk, 'h) sync_state option)"
    using assms(5) by (simp add: start_node_def)
  moreover have "cli_print_keys sp key_ok xonly_ok show_secret show_xonly p fs'
      = Some \<lparr>co_stdout = [], co_stderr = [''spend_pub='' @ show_xonly x, ''scan_key='' @ show_secret scan], co_exit = 0\<rparr>"
    using load by (simp add: cli_print_keys_def spend_xonly_def prints_def x_def)
  ultimately show ?thesis using w'(2-4) out by simp
qed

section \<open>Witnesses\<close>

theorem generated_keys_work_witness:
  "\<exists>res fs' s. cli_generate_keys demo_sp (\<lambda>k. []) (\<lambda>x. []) (8, 6) no_faults (Some ''keys'') Map.empty = (Some res, fs')
     \<and> start_node demo_sp (\<lambda>x. True) (\<lambda>k. k \<noteq> 0) (\<lambda>x. True) demo_store (Some ''keys'') fs' = (Some s :: (unit, xonly, unit) sync_state option)
     \<and> keys (sy_wallet s) = Some \<lparr>keys_receiver = (), keys_scan_key = 8\<rparr>"
proof -
  obtain res fs' where gen: "cli_generate_keys demo_sp (\<lambda>k. []) (\<lambda>x. []) (8, 6) no_faults (Some ''keys'') Map.empty = (Some res, fs')"
    by (simp add: cli_generate_keys_def generate_keys_def keys_save_def fs_create_new_def fs_defs no_faults_def)
  then have fs': "fs' = [''keys'' \<mapsto> keys_to_bytes \<lparr>kf_scan_key = 8, kf_spend_key = Secret 6\<rparr>]"
    by (auto simp: cli_generate_keys_def generate_keys_def keys_save_def fs_create_new_def fs_defs no_faults_def)
  have "parity_laws demo_sp" by (simp add: parity_laws_def demo_sp_def)
  moreover have "initial_wallet (\<lambda>x. True) demo_store fs' = Some (wallet_new wallet_network.Regtest :: (unit, xonly) wallet)"
    by (simp add: initial_wallet_def store_exists_def demo_store_def fs')
  ultimately show ?thesis
    using generated_keys_work [of demo_sp "\<lambda>k. k \<noteq> 0" 8 6, OF _ _ _ gen, of "\<lambda>x. True" demo_store "wallet_new wallet_network.Regtest" "()" "\<lambda>x. True"] gen
    by (fastforce simp: build_receiver_def demo_sp_def)
qed

end
