(* ===== verification/Spec2Isabelle.thy ===== *)
theory Spec2Isabelle
  imports Peer_System Wallet_Service Wallet_Sync Wizard Cli
begin

text \<open>
  Verification of kernel-node, a Bitcoin node built on the kernel library, with a silent
  payments wallet.

  \<^bold>\<open>The program.\<close>  The node (src/bin/node.rs) starts from an address book of peers
  (crates/address-book, src/net/addr.rs), dials peers directly or through a SOCKS5 proxy
  (src/net/socks5.rs), speaks the P2P protocol (crates/p2p) with each in a thread of its own
  (src/net/manager.rs, src/net/peer.rs), and downloads blocks through a queue the threads
  share.  A block thread hands downloaded blocks to the kernel in chain order; the kernel's
  callbacks feed a scan thread that keeps the wallet (crates/wallet) and its file in step.
  A command-line client (src/bin/cli.rs) asks the wallet and the chain over IPC (src/ipc),
  and a broadcast thread sends the wallet's transactions.  A wizard (src/bin/wizard.rs) builds the command line.

  \<^bold>\<open>Theories.\<close>
  \<^item> \<open>Prelude\<close>: results, machine integers, byte codecs (interface \<open>byte_codec\<close>), time,
    iteration orders, decimal numbers.
  \<^item> \<open>File_System\<close>: files with failing operations; the interface \<open>atomic_save\<close>.
  \<^item> \<open>Address_Book\<close>: crates/address-book/src/lib.rs, records, buckets, the table and its
    operations; the interface \<open>slotted_store\<close>, met by buckets and by tables.
  \<^item> \<open>Address_Book_IO\<close>: the record and table codecs and the peers file.
  \<^item> \<open>Socks5\<close>: src/net/socks5.rs over a byte stream; \<open>delimited_destination\<close>.
  \<^item> \<open>Messages\<close>, \<open>Handshake\<close>, \<open>Connection\<close>: crates/p2p, the message types and their
    validation, version negotiation, framing, metrics and the writer's rounds.
  \<^item> \<open>Writer\<close>: the handle of the writer thread, its channel, and runs of handle and thread.
  \<^item> \<open>Download\<close>: \<open>DownloadState\<close> of src/net/peer.rs; the interface \<open>block_ledger\<close>.
  \<^item> \<open>Peer\<close>: block locators, the download queue, \<open>process_message\<close> and the receive step.
  \<^item> \<open>Manager\<close>: \<open>FatalShutdown\<close> (src/lib.rs), the stages of a peer thread, feelers, flushing
    and broadcasting.
  \<^item> \<open>Peer_System\<close>: all peer threads interleaved, as a step relation on the shared state.
  \<^item> \<open>Wallet\<close>: wallet.rs, scanning.rs and mod.rs of crates/wallet/src/silentpayments.
  \<^item> \<open>Wallet_Store\<close>, \<open>Keys_File\<close>: the two files of the wallet.
  \<^item> \<open>Sending\<close>: sending.rs, from a recipient's address to a signed transaction.
  \<^item> \<open>Wallet_Service\<close>: src/ipc/wallet.rs and the broadcast thread, in any order with blocks.
  \<^item> \<open>Wallet_Sync\<close>: callbacks, scan thread and start of the wallet; \<open>chain_follower\<close>.
  \<^item> \<open>Node\<close>: networks, \<open>--connect\<close>, seeds, the first address book, the address and block
    threads, and stopping the peers.
  \<^item> \<open>Wizard\<close>: prompts, menu, quoting and the printed command.
  \<^item> \<open>Cli\<close>: the server's own requests (src/ipc/mod.rs, chain.rs) and the client's commands.

  Each theory has one definition per function or loop of the source, under the source's name
  where it does not clash, its structs as records and its enums as datatypes.

  \<^bold>\<open>Conventions.\<close>  Integers are words of the source's width; arithmetic that panics on
  overflow in the source is checked.  Errors are \<open>Inl\<close>; \<open>None\<close> is a panic, an exit or, for a
  loop that may run forever, not returning.  Clock readings, random choices, hash functions,
  failures of the file system and of sockets, and iteration orders of hash maps are
  arguments, so a theorem holds for all of them.  A lock is held for one step: the steps of
  \<open>Peer_System\<close>, \<open>Wallet_Service\<close> and \<open>Wallet_Sync\<close> are what a thread does while it holds the
  shared state.  The kernel, the bitcoin, secp256k1, silentpayments and coin selection
  libraries are records of functions; what is relied on of them is named (\<open>kernel_ok\<close>,
  \<open>addr_codec\<close>, \<open>wire_ok\<close>, \<open>parity_laws\<close>, \<open>send_laws\<close>, \<open>scan_laws\<close>,
  \<open>new_block\<close>) and met by the concrete instances of the witnesses.

  \<^bold>\<open>What is shown.\<close>
  \<^item> Address book: placement, the bound on one source, totality of selection, exact effect of
    every update, the file codec and its round trip, survival of the peers file, and that
    gossip displaces nothing.
  \<^item> Network: the SOCKS5 exchange and the base-32 encoder, the handshake, framing, metrics
    and pings, and that a writer sends the accepted messages in order.
  \<^item> Download: in every interleaving no wanted block is lost, destinations are unique, a node
    without peers has everything queued; messages never panic; blocks drain in chain order;
    locators and the queue are the documented ones.
  \<^item> Wallet: scanning is exact, reorganisations are undone, memory and disk follow the chain
    across failures and restarts (a refinement of the list of seen blocks); balance and
    history agree; both files round trip and damaged ones are refused; a built transaction
    is funded, signed and spends free coins; no coin is spent twice.
  \<^item> Node, wizard and client: the options and the printed command mean what was entered, and
    keys the client generates work in the node.

  \<^bold>\<open>Bounds and termination.\<close>  No fuel is used.  Loops are structural recursions or functions
  with a termination proof; \<open>wait_for_pong\<close>, \<open>broadcast_loop\<close>, \<open>walk_back\<close> and the cyclic
  search of \<open>select\<close> are partial functions whose returning is proved.  Wallets with 2^32 or more coins panic on save,
  as in the source; text is ASCII, other characters their UTF-8 bytes.

  \<^bold>\<open>Not modelled.\<close>  The f64 rate of \<open>MessageRate\<close> and the f64 conversion of fee rates (their
  results are arguments); display texts of errors other than the sender's, and log output,
  which change no state; forking into the background (system calls only); parsing
  of the client's arguments, the IPC transport and the handing out of its interfaces, which are
  the clap and capnp libraries' and generated code; configuration parsing and the
  spawning and joining of threads; the terminal's raw mode.
\<close>

end
